theory Spec2Isabelle
  imports Complex_Main "HOL-Library.Multiset"
begin

section \<open>Host-language values\<close>

text \<open>
  JavaScript numbers are modelled as exact numbers: question identifiers are integers
  (\<open>int\<close>), seeds and probabilities are reals. Rounding of IEEE doubles and the special
  values NaN and Infinity are outside the model. \<open>Math.sin\<close> is a function of the
  platform and is a parameter \<open>msin\<close> of everything that draws pseudo-random numbers.
  \<open>null\<close> and \<open>undefined\<close> are both \<open>None\<close>.
\<close>

definition digitChar :: "nat \<Rightarrow> char" where
  "digitChar d = ''0123456789'' ! d"

fun decimal :: "nat \<Rightarrow> string" where
  "decimal n = (if n < 10 then [digitChar n] else decimal (n div 10) @ [digitChar (n mod 10)])"

declare decimal.simps [simp del]

text \<open>The string a template literal makes of an integer number.\<close>

definition numberToString :: "int \<Rightarrow> string" where
  "numberToString i = (if i < 0 then CHR ''-'' # decimal (nat (- i)) else decimal (nat i))"

text \<open>\<open>Array.prototype.join\<close> on an array of strings.\<close>

fun join :: "string \<Rightarrow> string list \<Rightarrow> string" where
  "join sep [] = []"
| "join sep [x] = x"
| "join sep (x # y # ys) = x @ sep @ join sep (y # ys)"

text \<open>\<open>xs[i]\<close>: \<open>undefined\<close> out of range.\<close>

definition nth_opt :: "'a list \<Rightarrow> nat \<Rightarrow> 'a option" where
  "nth_opt xs i = (if i < length xs then Some (xs ! i) else None)"

section \<open>Configuration (both stage files)\<close>

definition MODELS :: "string list" where
  "MODELS = [''pro'', ''sonnet'', ''gpt5'']"

definition CONDITIONS :: "string list" where
  "CONDITIONS = [''diverse_full'', ''diverse_info'', ''homo_full'', ''diverse_none'',
     ''homo_none'', ''homo_info'']"

definition MAX_RETRIES_PER_QUESTION :: nat where
  "MAX_RETRIES_PER_QUESTION = 3"

definition MAX_TOTAL_FAILURES :: nat where
  "MAX_TOTAL_FAILURES = 5"

definition BATCH_SIZE :: nat where
  "BATCH_SIZE = 20"

section \<open>Seeded randomisation\<close>

text \<open>
  Both \<open>independent-forecast.js\<close> and \<open>deliberative-forecast.js\<close> carry their own copy
  of \<open>seededRandom\<close> and \<open>seededShuffle\<close>; the copies are modelled separately
  (suffixes \<open>_ind\<close> and \<open>_del\<close>).

  \<open>const i = Math.floor(seededRandom(seed + m) * m--)\<close> reads \<open>m\<close> twice before the
  decrement; the swap \<open>[result[m], result[i]] = [result[i], result[m]]\<close> then uses the
  decremented \<open>m\<close>.

  The functions of this section are the two copies as the stages use them, on real
  numbers and lists: they give the value of the code for the seeds at which no product
  \<open>(seed + m) * 9999\<close> overflows, which is what \<open>seedInRange\<close> below says (for the stages:
  question identifiers below about \<open>10\<^sup>3\<^sup>0\<^sup>4\<close> in magnitude). The next section has the
  same code on JavaScript numbers and arrays, for every seed; the two agree on the seeds
  in range.
\<close>

definition seededRandom_ind :: "(real \<Rightarrow> real) \<Rightarrow> real \<Rightarrow> real" where
  "seededRandom_ind msin seed = (let x = msin (seed * 9999) * 10000 in x - of_int \<lfloor>x\<rfloor>)"

fun seededShuffle_ind_loop :: "(real \<Rightarrow> real) \<Rightarrow> real \<Rightarrow> 'a list \<Rightarrow> nat \<Rightarrow> 'a list" where
  "seededShuffle_ind_loop msin seed result 0 = result"
| "seededShuffle_ind_loop msin seed result (Suc m) =
     (let i = nat \<lfloor>seededRandom_ind msin (seed + real (Suc m)) * real (Suc m)\<rfloor>
      in seededShuffle_ind_loop msin seed (result[m := result ! i, i := result ! m]) m)"

definition seededShuffle_ind :: "(real \<Rightarrow> real) \<Rightarrow> 'a list \<Rightarrow> real \<Rightarrow> 'a list" where
  "seededShuffle_ind msin array seed = seededShuffle_ind_loop msin seed array (length array)"

definition seededRandom_del :: "(real \<Rightarrow> real) \<Rightarrow> real \<Rightarrow> real" where
  "seededRandom_del msin seed = (let x = msin (seed * 9999) * 10000 in x - of_int \<lfloor>x\<rfloor>)"

fun seededShuffle_del_loop :: "(real \<Rightarrow> real) \<Rightarrow> real \<Rightarrow> 'a list \<Rightarrow> nat \<Rightarrow> 'a list" where
  "seededShuffle_del_loop msin seed result 0 = result"
| "seededShuffle_del_loop msin seed result (Suc m) =
     (let i = nat \<lfloor>seededRandom_del msin (seed + real (Suc m)) * real (Suc m)\<rfloor>
      in seededShuffle_del_loop msin seed (result[m := result ! i, i := result ! m]) m)"

definition seededShuffle_del :: "(real \<Rightarrow> real) \<Rightarrow> 'a list \<Rightarrow> real \<Rightarrow> 'a list" where
  "seededShuffle_del msin array seed = seededShuffle_del_loop msin seed array (length array)"

section \<open>Seeded randomisation on JavaScript numbers\<close>

text \<open>
  A JavaScript number is a finite double, an infinity or \<open>NaN\<close>. The model keeps the
  finite values as real numbers. The result of an arithmetic operation on finite values
  is the exact result, unless its magnitude is at least \<open>2\<^sup>1\<^sup>0\<^sup>2\<^sup>4 - 2\<^sup>9\<^sup>7\<^sup>0\<close>, from where
  rounding to nearest gives an infinity (overflow); the rounding of a result in range to
  53 bits is not modelled, and neither is the sign of zero. The operations follow
  IEEE 754 at the infinities and at \<open>NaN\<close>. \<open>Math.sin\<close> is the parameter \<open>msin\<close> on the
  finite values and gives \<open>NaN\<close> at the infinities and at \<open>NaN\<close>.
\<close>

datatype jsnumber = Finite real | PosInfinity | NegInfinity | NaN

definition OVERFLOW_THRESHOLD :: real where
  "OVERFLOW_THRESHOLD = 2 ^ 1024 - 2 ^ 970"

definition fromExact :: "real \<Rightarrow> jsnumber" where
  "fromExact r =
     (if OVERFLOW_THRESHOLD \<le> r then PosInfinity
      else if r \<le> - OVERFLOW_THRESHOLD then NegInfinity
      else Finite r)"

fun jsNeg :: "jsnumber \<Rightarrow> jsnumber" where
  "jsNeg (Finite a) = Finite (- a)"
| "jsNeg PosInfinity = NegInfinity"
| "jsNeg NegInfinity = PosInfinity"
| "jsNeg NaN = NaN"

fun jsAdd :: "jsnumber \<Rightarrow> jsnumber \<Rightarrow> jsnumber" where
  "jsAdd (Finite a) (Finite b) = fromExact (a + b)"
| "jsAdd NaN y = NaN"
| "jsAdd x NaN = NaN"
| "jsAdd PosInfinity NegInfinity = NaN"
| "jsAdd NegInfinity PosInfinity = NaN"
| "jsAdd PosInfinity y = PosInfinity"
| "jsAdd x PosInfinity = PosInfinity"
| "jsAdd NegInfinity y = NegInfinity"
| "jsAdd x NegInfinity = NegInfinity"

definition jsSub :: "jsnumber \<Rightarrow> jsnumber \<Rightarrow> jsnumber" where
  "jsSub x y = jsAdd x (jsNeg y)"

fun jsMul :: "jsnumber \<Rightarrow> jsnumber \<Rightarrow> jsnumber" where
  "jsMul (Finite a) (Finite b) = fromExact (a * b)"
| "jsMul NaN y = NaN"
| "jsMul x NaN = NaN"
| "jsMul (Finite a) y = (if a = 0 then NaN else if 0 < a then y else jsNeg y)"
| "jsMul x (Finite b) = (if b = 0 then NaN else if 0 < b then x else jsNeg x)"
| "jsMul PosInfinity y = y"
| "jsMul NegInfinity y = jsNeg y"

fun jsFloor :: "jsnumber \<Rightarrow> jsnumber" where
  "jsFloor (Finite a) = Finite (of_int \<lfloor>a\<rfloor>)"
| "jsFloor x = x"

fun jsSin :: "(real \<Rightarrow> real) \<Rightarrow> jsnumber \<Rightarrow> jsnumber" where
  "jsSin msin (Finite a) = Finite (msin a)"
| "jsSin msin x = NaN"

text \<open>\<open>const x = Math.sin(seed * 9999) * 10000; return x - Math.floor(x)\<close>\<close>

definition seededRandom_js :: "(real \<Rightarrow> real) \<Rightarrow> jsnumber \<Rightarrow> jsnumber" where
  "seededRandom_js msin seed =
     (let x = jsMul (jsSin msin (jsMul seed (Finite 9999))) (Finite 10000)
      in jsSub x (jsFloor x))"

text \<open>
  An array object: its elements, where \<open>None\<close> is \<open>undefined\<close>, and its other
  properties (such as the property \<open>NaN\<close>), by the number that was used as the key. A
  number is an index when it is a whole number and not negative (the bound \<open>2\<^sup>3\<^sup>2 - 1\<close>
  on indices is left out). Reading beyond the length or an absent property gives
  \<open>undefined\<close>; writing at an index beyond the length extends the array.
\<close>

record 'a jsarray =
  elements :: "'a option list"
  otherProps :: "jsnumber \<Rightarrow> 'a option"

definition indexOf :: "jsnumber \<Rightarrow> nat option" where
  "indexOf k =
     (case k of
        Finite r \<Rightarrow> if 0 \<le> r \<and> r = of_int \<lfloor>r\<rfloor> then Some (nat \<lfloor>r\<rfloor>) else None
      | _ \<Rightarrow> None)"

definition getProp :: "'a jsarray \<Rightarrow> jsnumber \<Rightarrow> 'a option" where
  "getProp a k =
     (case indexOf k of
        Some i \<Rightarrow> if i < length (elements a) then elements a ! i else None
      | None \<Rightarrow> otherProps a k)"

definition setProp :: "'a jsarray \<Rightarrow> jsnumber \<Rightarrow> 'a option \<Rightarrow> 'a jsarray" where
  "setProp a k v =
     (case indexOf k of
        Some i \<Rightarrow>
          a\<lparr>elements :=
               (if i < length (elements a) then (elements a)[i := v]
                else elements a @ replicate (i - length (elements a)) None @ [v])\<rparr>
      | None \<Rightarrow> a\<lparr>otherProps := (otherProps a)(k := v)\<rparr>)"

text \<open>
  One round of the loop, with \<open>m\<close> already decremented:
  \<open>const i = Math.floor(seededRandom(seed + (m + 1)) * (m + 1))\<close>, then
  \<open>[result[m], result[i]] = [result[i], result[m]]\<close>, which reads \<open>result[i]\<close> and
  \<open>result[m]\<close> and then writes \<open>result[m]\<close> and \<open>result[i]\<close>.
\<close>

definition shuffleStep :: "(real \<Rightarrow> real) \<Rightarrow> jsnumber \<Rightarrow> nat \<Rightarrow> 'a jsarray \<Rightarrow> 'a jsarray" where
  "shuffleStep msin seed m result =
     (let i = jsFloor (jsMul (seededRandom_js msin (jsAdd seed (Finite (real (Suc m)))))
                         (Finite (real (Suc m))));
          x = getProp result i;
          y = getProp result (Finite (real m))
      in setProp (setProp result (Finite (real m)) x) i y)"

fun seededShuffle_js_loop ::
  "(real \<Rightarrow> real) \<Rightarrow> jsnumber \<Rightarrow> 'a jsarray \<Rightarrow> nat \<Rightarrow> 'a jsarray" where
  "seededShuffle_js_loop msin seed result 0 = result"
| "seededShuffle_js_loop msin seed result (Suc m) =
     seededShuffle_js_loop msin seed (shuffleStep msin seed m result) m"

text \<open>
  \<open>const result = [...array]\<close> copies the elements and none of the other properties.
  The value returned is the array \<open>result\<close>, of which the model gives the elements.
\<close>

definition seededShuffle_js :: "(real \<Rightarrow> real) \<Rightarrow> 'a option list \<Rightarrow> jsnumber \<Rightarrow> 'a option list" where
  "seededShuffle_js msin array seed =
     elements (seededShuffle_js_loop msin seed \<lparr>elements = array, otherProps = (\<lambda>k. None)\<rparr> (length array))"

text \<open>
  The same function on a heap of array objects, where an array is a reference (an index
  of the heap): \<open>[...array]\<close> allocates a new object, and the loop works in place in it.
\<close>

type_synonym 'a heap = "'a jsarray list"

fun seededShuffle_heap_loop ::
  "(real \<Rightarrow> real) \<Rightarrow> jsnumber \<Rightarrow> nat \<Rightarrow> 'a heap \<Rightarrow> nat \<Rightarrow> 'a heap" where
  "seededShuffle_heap_loop msin seed result h 0 = h"
| "seededShuffle_heap_loop msin seed result h (Suc m) =
     seededShuffle_heap_loop msin seed result (h[result := shuffleStep msin seed m (h ! result)]) m"

definition seededShuffle_heap ::
  "(real \<Rightarrow> real) \<Rightarrow> 'a heap \<Rightarrow> nat \<Rightarrow> jsnumber \<Rightarrow> 'a heap \<times> nat" where
  "seededShuffle_heap msin h array seed =
     (let result = length h;
          h1 = h @ [\<lparr>elements = elements (h ! array), otherProps = (\<lambda>k. None)\<rparr>]
      in (seededShuffle_heap_loop msin seed result h1 (length (elements (h1 ! result))), result))"

text \<open>
  The seeds in range for an array of length \<open>n\<close>: no product \<open>(seed + m) * 9999\<close> with
  \<open>m\<close> from 1 to \<open>n\<close> overflows.
\<close>

definition seedInRange :: "nat \<Rightarrow> real \<Rightarrow> bool" where
  "seedInRange n seed \<longleftrightarrow>
     real n < OVERFLOW_THRESHOLD
     \<and> (\<forall>m \<in> {1 .. n}. \<bar>(seed + real m) * 9999\<bar> < OVERFLOW_THRESHOLD)"

section \<open>Participants of a group\<close>

record agent_spec =
  model :: string
  infoLabel :: string
  instanceNo :: "nat option"

text \<open>
  \<open>instance || ''\<close> and \<open>instance ? `-${instance}` : ''\<close>: no instance and the
  instance 0 are both falsy.
\<close>

definition instanceOrEmpty :: "nat option \<Rightarrow> string" where
  "instanceOrEmpty i = (case i of None \<Rightarrow> [] | Some n \<Rightarrow> if n = 0 then [] else decimal n)"

definition instanceSuffix :: "nat option \<Rightarrow> string" where
  "instanceSuffix i =
     (case i of None \<Rightarrow> [] | Some n \<Rightarrow> if n = 0 then [] else ''-'' @ decimal n)"

subsection \<open>Independent stage: \<open>getRequiredForecasts\<close>\<close>

definition forecastKey :: "string \<Rightarrow> string \<Rightarrow> nat option \<Rightarrow> string" where
  "forecastKey m l i = m @ ''-'' @ l @ ''-'' @ instanceOrEmpty i"

definition addForecast ::
  "agent_spec list \<times> string set \<Rightarrow> string \<times> string \<times> nat option \<Rightarrow> agent_spec list \<times> string set" where
  "addForecast st c =
     (case (st, c) of ((required, seen), (m, l, i)) \<Rightarrow>
        if forecastKey m l i \<notin> seen
        then (required @ [\<lparr>model = m, infoLabel = l, instanceNo = i\<rparr>], insert (forecastKey m l i) seen)
        else (required, seen))"

text \<open>
  The calls of \<open>addForecast\<close> that each numbered block of the function makes, in order.
  Block 6 (\<open>diverse_none\<close>) makes none: its forecasts are those of block 4.
\<close>

definition block_diverse_full :: "(string \<times> string \<times> nat option) list" where
  "block_diverse_full = map (\<lambda>m. (m, ''full'', None)) MODELS"

definition block_diverse_info :: "(real \<Rightarrow> real) \<Rightarrow> int \<Rightarrow> (string \<times> string \<times> nat option) list" where
  "block_diverse_info msin questionId =
     (let infoLabels = seededShuffle_ind msin [''info1'', ''info2'', ''info3''] (of_int questionId);
          models = seededShuffle_ind msin MODELS (of_int questionId + 1)
      in map (\<lambda>i. (models ! i, infoLabels ! i, None)) [0, 1, 2])"

definition block_homo_full :: "nat \<Rightarrow> (string \<times> string \<times> nat option) list" where
  "block_homo_full qIndex =
     (let homoModel = MODELS ! (qIndex mod 3)
      in map (\<lambda>inst. (homoModel, ''full'', Some inst)) [1, 2, 3])"

definition block_sense_check :: "(string \<times> string \<times> nat option) list" where
  "block_sense_check = map (\<lambda>m. (m, ''none'', None)) MODELS"

definition block_homo_none :: "nat \<Rightarrow> (string \<times> string \<times> nat option) list" where
  "block_homo_none qIndex =
     (let homoModel = MODELS ! (qIndex mod 3)
      in map (\<lambda>inst. (homoModel, ''none'', Some inst)) [1, 2, 3])"

definition block_homo_info :: "nat \<Rightarrow> (string \<times> string \<times> nat option) list" where
  "block_homo_info qIndex =
     (let homoModel = MODELS ! (qIndex mod 3);
          homoInfoLabels = [''info1'', ''info2'', ''info3'']
      in map (\<lambda>inst. (homoModel, homoInfoLabels ! (inst - 1), Some inst)) [1, 2, 3])"

definition getRequiredForecasts :: "(real \<Rightarrow> real) \<Rightarrow> int \<Rightarrow> nat \<Rightarrow> agent_spec list" where
  "getRequiredForecasts msin questionId qIndex =
     fst (foldl addForecast ([], {})
       (block_diverse_full @ block_diverse_info msin questionId @ block_homo_full qIndex
        @ block_sense_check @ block_homo_none qIndex @ block_homo_info qIndex))"

text \<open>The block that serves a condition of the deliberative stage.\<close>

definition blockOf ::
  "(real \<Rightarrow> real) \<Rightarrow> string \<Rightarrow> int \<Rightarrow> nat \<Rightarrow> (string \<times> string \<times> nat option) list" where
  "blockOf msin condition questionId qIndex =
     (if condition = ''diverse_full'' then block_diverse_full
      else if condition = ''diverse_info'' then block_diverse_info msin questionId
      else if condition = ''homo_full'' then block_homo_full qIndex
      else if condition = ''diverse_none'' then block_sense_check
      else if condition = ''homo_none'' then block_homo_none qIndex
      else if condition = ''homo_info'' then block_homo_info qIndex
      else [])"

subsection \<open>Deliberative stage: \<open>getGroupComposition\<close>\<close>

datatype exn = UnknownCondition string | UnknownInfoLabel string | TypeError

definition getGroupComposition ::
  "(real \<Rightarrow> real) \<Rightarrow> string \<Rightarrow> int \<Rightarrow> nat \<Rightarrow> exn + agent_spec list" where
  "getGroupComposition msin condition questionId questionIndex =
     (if condition = ''diverse_full'' then
        Inr [\<lparr>model = ''pro'', infoLabel = ''full'', instanceNo = None\<rparr>,
             \<lparr>model = ''sonnet'', infoLabel = ''full'', instanceNo = None\<rparr>,
             \<lparr>model = ''gpt5'', infoLabel = ''full'', instanceNo = None\<rparr>]
      else if condition = ''diverse_info'' then
        (let infoLabels = seededShuffle_del msin [''info1'', ''info2'', ''info3''] (of_int questionId);
             models = seededShuffle_del msin MODELS (of_int questionId + 1)
         in Inr [\<lparr>model = models ! 0, infoLabel = infoLabels ! 0, instanceNo = None\<rparr>,
                 \<lparr>model = models ! 1, infoLabel = infoLabels ! 1, instanceNo = None\<rparr>,
                 \<lparr>model = models ! 2, infoLabel = infoLabels ! 2, instanceNo = None\<rparr>])
      else if condition = ''homo_full'' then
        (let homoModel = MODELS ! (questionIndex mod 3)
         in Inr [\<lparr>model = homoModel, infoLabel = ''full'', instanceNo = Some 1\<rparr>,
                 \<lparr>model = homoModel, infoLabel = ''full'', instanceNo = Some 2\<rparr>,
                 \<lparr>model = homoModel, infoLabel = ''full'', instanceNo = Some 3\<rparr>])
      else if condition = ''diverse_none'' then
        Inr [\<lparr>model = ''pro'', infoLabel = ''none'', instanceNo = None\<rparr>,
             \<lparr>model = ''sonnet'', infoLabel = ''none'', instanceNo = None\<rparr>,
             \<lparr>model = ''gpt5'', infoLabel = ''none'', instanceNo = None\<rparr>]
      else if condition = ''homo_none'' then
        (let homoNoneModel = MODELS ! (questionIndex mod 3)
         in Inr [\<lparr>model = homoNoneModel, infoLabel = ''none'', instanceNo = Some 1\<rparr>,
                 \<lparr>model = homoNoneModel, infoLabel = ''none'', instanceNo = Some 2\<rparr>,
                 \<lparr>model = homoNoneModel, infoLabel = ''none'', instanceNo = Some 3\<rparr>])
      else if condition = ''homo_info'' then
        (let homoInfoModel = MODELS ! (questionIndex mod 3)
         in Inr [\<lparr>model = homoInfoModel, infoLabel = ''info1'', instanceNo = Some 1\<rparr>,
                 \<lparr>model = homoInfoModel, infoLabel = ''info2'', instanceNo = Some 2\<rparr>,
                 \<lparr>model = homoInfoModel, infoLabel = ''info3'', instanceNo = Some 3\<rparr>])
      else Inl (UnknownCondition condition))"

definition specOf :: "string \<times> string \<times> nat option \<Rightarrow> agent_spec" where
  "specOf c = (case c of (m, l, i) \<Rightarrow> \<lparr>model = m, infoLabel = l, instanceNo = i\<rparr>)"

section \<open>The question corpus, the artifact store and the forecasting service\<close>

text \<open>\<open>xs[i]\<close> for a computed index: \<open>undefined\<close> when it is negative or too large.\<close>

definition jsIndex :: "'a list \<Rightarrow> int \<Rightarrow> 'a option" where
  "jsIndex xs i = (if 0 \<le> i \<and> i < int (length xs) then Some (xs ! nat i) else None)"

record question =
  qid :: int
  questionTitle :: string
  resolution :: string
  informationPackages :: "string list"

record forecast_object =
  probability :: real
  rationale :: string

text \<open>The JSON document that the independent stage writes for one forecast.\<close>

record independent_result =
  i_forecastId :: string
  i_questionId :: int
  i_model :: string
  i_infoLabel :: string
  i_instance :: "nat option"
  i_information :: "string option"
  i_forecast :: forecast_object
  i_prompt :: string

text \<open>The JSON document that the deliberative stage writes: the agent's reply as it is.\<close>

record deliberative_result =
  d_forecastId :: string
  d_questionId :: int
  d_condition :: string
  d_model :: string
  d_position :: nat
  d_infoLabel :: string
  d_groupId :: string
  d_independentForecastId :: string
  d_otherForecastIds :: "string list"
  d_forecast :: forecast_object

text \<open>
  The world a stage runs in: the two result directories, keyed by the forecast identifier
  \<open>k\<close> of the file \<open>data/independent-forecasts/k.json\<close> or
  \<open>data/deliberative-forecasts/k.json\<close>, and the log of the calls made to the
  forecasting service, oldest first.
\<close>

datatype call =
  IndependentCall int string string "nat option"
| DeliberativeCall int string string nat

record world =
  independentFiles :: "string \<rightharpoonup> independent_result"
  deliberativeFiles :: "string \<rightharpoonup> deliberative_result"
  calls :: "call list"

text \<open>
  The two agent modules construct a prompt and call the language model. They are the
  forecasting service and are parameters of the model: a function of the number of calls
  made before and of the arguments, giving the message of the error thrown (\<open>Inl\<close>) or
  the reply (\<open>Inr\<close>).
\<close>

record agent_reply =
  r_object :: forecast_object
  r_prompt :: string
  r_id :: string

type_synonym independent_agent =
  "nat \<Rightarrow> question \<Rightarrow> string option \<Rightarrow> string \<Rightarrow> string \<Rightarrow> nat option \<Rightarrow> string + agent_reply"

type_synonym deliberative_agent =
  "nat \<Rightarrow> question \<Rightarrow> string option \<Rightarrow> independent_result option
     \<Rightarrow> independent_result option list \<Rightarrow> string \<Rightarrow> string \<Rightarrow> nat \<Rightarrow> string + deliberative_result"

datatype status = Success | Cached | Error | PersistentFailure

record task_result =
  status :: status
  forecastId :: string
  errorMessage :: "string option"

section \<open>Independent stage: one forecast\<close>

definition getInformation :: "question \<Rightarrow> string \<Rightarrow> exn + string option" where
  "getInformation question label =
     (let infoPkgs = informationPackages question
      in if label = ''none'' then Inr (Some ''No additional information available.'')
         else if label = ''full'' then Inr (Some (join [CHR 0x0A, CHR 0x0A] infoPkgs))
         else if label = ''info1'' then Inr (jsIndex infoPkgs 0)
         else if label = ''info2'' then Inr (jsIndex infoPkgs 1)
         else if label = ''info3'' then Inr (jsIndex infoPkgs 2)
         else Inl (UnknownInfoLabel label))"

text \<open>The identifier \<open>`${question.id}-${req.model}-${req.infoLabel}${instanceSuffix}`\<close>.\<close>

definition independentForecastId :: "question \<Rightarrow> agent_spec \<Rightarrow> string" where
  "independentForecastId question req =
     numberToString (qid question) @ ''-'' @ model req @ ''-'' @ infoLabel req
       @ instanceSuffix (instanceNo req)"

text \<open>
  \<open>getInformation\<close> is called before the \<open>try\<close>: what it throws rejects the promise
  (\<open>Inl\<close>). What the agent throws is caught and becomes the status \<open>error\<close>.
\<close>

definition generateSingleForecast ::
  "independent_agent \<Rightarrow> question \<Rightarrow> agent_spec \<Rightarrow> world \<Rightarrow> exn + task_result \<times> world" where
  "generateSingleForecast agent question req w =
     (let fid = independentForecastId question req
      in if independentFiles w fid \<noteq> None
         then Inr (\<lparr>status = Cached, forecastId = fid, errorMessage = None\<rparr>, w)
         else
           (case getInformation question (infoLabel req) of
              Inl e \<Rightarrow> Inl e
            | Inr information \<Rightarrow>
               (let w1 = w\<lparr>calls := calls w
                          @ [IndependentCall (qid question) (model req) (infoLabel req) (instanceNo req)]\<rparr>
                in case agent (length (calls w)) question information (model req) (infoLabel req)
                          (instanceNo req) of
                     Inl msg \<Rightarrow> Inr (\<lparr>status = Error, forecastId = fid, errorMessage = Some msg\<rparr>, w1)
                   | Inr forecast \<Rightarrow>
                      (let result = \<lparr>i_forecastId = r_id forecast, i_questionId = qid question,
                                      i_model = model req, i_infoLabel = infoLabel req,
                                      i_instance = instanceNo req, i_information = information,
                                      i_forecast = r_object forecast, i_prompt = r_prompt forecast\<rparr>
                       in Inr (\<lparr>status = Success, forecastId = fid, errorMessage = None\<rparr>,
                               w1\<lparr>independentFiles := (independentFiles w1)(fid \<mapsto> result)\<rparr>)))))"

section \<open>The retry loop of \<open>processQuestion\<close>\<close>

text \<open>
  Both stage files contain the same loop, up to the names of its variables
  (\<open>pendingForecasts\<close>, \<open>pendingTasks\<close>) and the function that executes one task. It is
  modelled once, with the executor \<open>exec\<close> and the function \<open>idOf\<close> that gives a task's
  forecast identifier as parameters.

  \<open>Promise.all\<close> over the pending tasks: the calls are in flight together. In the code
  every task of a round checks for its file and starts its call before any task of the
  round writes. The model runs the tasks one after the other in the order of the list,
  each from its check to its write; the entries of the call log are in the order of
  dispatch. The two agree as long as the tasks of one round have different identifiers,
  as the tasks of a question in both stages have; a round with two tasks of the same
  identifier is outside the model (the code calls the service for both, the model for the
  first only). A rejected promise rejects the whole (\<open>Inl\<close>). Waiting (\<open>sleep\<close>) and
  logging are not modelled.
\<close>

fun runAll ::
  "('t \<Rightarrow> world \<Rightarrow> exn + task_result \<times> world) \<Rightarrow> 't list \<Rightarrow> world \<Rightarrow> exn + task_result list \<times> world" where
  "runAll exec [] w = Inr ([], w)"
| "runAll exec (t # ts) w =
     (case exec t w of
        Inl e \<Rightarrow> Inl e
      | Inr (r, w1) \<Rightarrow>
         (case runAll exec ts w1 of
            Inl e \<Rightarrow> Inl e
          | Inr (rs, w2) \<Rightarrow> Inr (r # rs, w2)))"

function retryLoop ::
  "('t \<Rightarrow> world \<Rightarrow> exn + task_result \<times> world) \<Rightarrow> ('t \<Rightarrow> string) \<Rightarrow> 't list \<Rightarrow> task_result list
     \<Rightarrow> nat \<Rightarrow> world \<Rightarrow> exn + 't list \<times> task_result list \<times> world" where
  "retryLoop exec idOf pending allResults retryCount w =
     (if pending \<noteq> [] \<and> retryCount < MAX_RETRIES_PER_QUESTION then
        (case runAll exec pending w of
           Inl e \<Rightarrow> Inl e
         | Inr (results, w1) \<Rightarrow>
            (let succeeded = filter (\<lambda>r. status r = Success \<or> status r = Cached) results;
                 failed = filter (\<lambda>r. status r = Error) results
             in if failed = [] then Inr ([], allResults @ succeeded, w1)
                else retryLoop exec idOf
                       (filter (\<lambda>t. list_ex (\<lambda>f. forecastId f = idOf t) failed) pending)
                       (allResults @ succeeded) (retryCount + 1) w1))
      else Inr (pending, allResults, w))"
  by pat_completeness auto
termination
  by (relation "measure (\<lambda>(exec, idOf, pending, allResults, retryCount, w).
        MAX_RETRIES_PER_QUESTION - retryCount)") auto

declare retryLoop.simps [simp del]

record question_result =
  results :: "task_result list"
  persistentFailures :: nat

definition persistentFailureOf :: "string \<Rightarrow> task_result" where
  "persistentFailureOf fid = \<lparr>status = PersistentFailure, forecastId = fid, errorMessage = None\<rparr>"

definition processQuestion_ind ::
  "independent_agent \<Rightarrow> question \<Rightarrow> nat \<Rightarrow> agent_spec list \<Rightarrow> world
     \<Rightarrow> exn + question_result \<times> world" where
  "processQuestion_ind agent question qIndex requiredForecasts w =
     (case retryLoop (generateSingleForecast agent question) (independentForecastId question)
             requiredForecasts [] 0 w of
        Inl e \<Rightarrow> Inl e
      | Inr (pendingForecasts, allResults, w1) \<Rightarrow>
         (let finalFailed = length pendingForecasts
          in Inr (\<lparr>results =
                     (if finalFailed > 0
                      then allResults @ map (\<lambda>req. persistentFailureOf (independentForecastId question req))
                             pendingForecasts
                      else allResults),
                   persistentFailures = finalFailed\<rparr>, w1)))"

section \<open>The batch loop of \<open>main\<close>\<close>

text \<open>
  Also the same in both files, up to \<open>processQuestion\<close>, which is the parameter \<open>pq\<close>.
  The questions of a batch run concurrently: in the code the rounds of the questions of
  a batch interleave, and the order in which their calls reach the service depends on
  how long the calls take. The model runs the questions in the order of the batch, each
  to its end, so that the call log is grouped by question. The results and the files
  written are those of the code when the questions of the corpus have different
  identifiers (two questions with the same identifier in one batch are outside the
  model); the order of the call log across questions is not meant. The counters that are
  only printed (\<open>totalCompleted\<close>, \<open>totalCached\<close>, \<open>totalSkipped\<close>,
  \<open>totalPersistentFailures\<close>) are left out.
\<close>

fun processBatch ::
  "(question \<Rightarrow> nat \<Rightarrow> world \<Rightarrow> exn + 'r \<times> world) \<Rightarrow> question list \<Rightarrow> nat \<Rightarrow> world
     \<Rightarrow> exn + ('r \<times> question) list \<times> world" where
  "processBatch pq [] qIndex w = Inr ([], w)"
| "processBatch pq (question # rest) qIndex w =
     (case pq question qIndex w of
        Inl e \<Rightarrow> Inl e
      | Inr (r, w1) \<Rightarrow>
         (case processBatch pq rest (Suc qIndex) w1 of
            Inl e \<Rightarrow> Inl e
          | Inr (rs, w2) \<Rightarrow> Inr ((r, question) # rs, w2)))"

text \<open>
  The loop over the results of a batch: \<open>(True, _)\<close> when it reaches
  \<open>process.exit(1)\<close>, with the questions that had failed so far.
\<close>

fun tallyBatch ::
  "int list \<Rightarrow> ('a question_result_scheme \<times> question) list \<Rightarrow> bool \<times> int list" where
  "tallyBatch questionsWithFailures [] = (False, questionsWithFailures)"
| "tallyBatch questionsWithFailures ((r, question) # rest) =
     (if persistentFailures r > 0 then
        (let qwf = questionsWithFailures @ [qid question]
         in if length qwf \<ge> MAX_TOTAL_FAILURES then (True, qwf) else tallyBatch qwf rest)
      else tallyBatch questionsWithFailures rest)"

function batchLoop ::
  "(question \<Rightarrow> nat \<Rightarrow> world \<Rightarrow> exn + 'a question_result_scheme \<times> world) \<Rightarrow> question list \<Rightarrow> nat
     \<Rightarrow> int list \<Rightarrow> world \<Rightarrow> exn + bool \<times> int list \<times> world" where
  "batchLoop pq questions batchStart questionsWithFailures w =
     (if batchStart < length questions then
        (let batchEnd = min (batchStart + BATCH_SIZE) (length questions);
             batch = take (batchEnd - batchStart) (drop batchStart questions)
         in case processBatch pq batch batchStart w of
              Inl e \<Rightarrow> Inl e
            | Inr (batchResults, w1) \<Rightarrow>
               (case tallyBatch questionsWithFailures batchResults of
                  (True, qwf) \<Rightarrow> Inr (True, qwf, w1)
                | (False, qwf) \<Rightarrow> batchLoop pq questions (batchStart + BATCH_SIZE) qwf w1))
      else Inr (False, questionsWithFailures, w))"
  by pat_completeness auto
termination
  by (relation "measure (\<lambda>(pq, questions, batchStart, questionsWithFailures, w).
        length questions - batchStart)") (auto simp: BATCH_SIZE_def)

declare batchLoop.simps [simp del]

text \<open>
  How a run ends: the exit status of the process, whether the circuit breaker stopped
  it, the questions with persistent failures, and the world it leaves. A rejection of
  \<open>main()\<close> is caught by \<open>.catch(console.error)\<close>: the process then ends with status 0.
\<close>

record run =
  exitStatus :: nat
  stopped :: bool
  failedQuestions :: "int list"
  finalWorld :: world


definition main_ind ::
  "bool \<Rightarrow> (real \<Rightarrow> real) \<Rightarrow> independent_agent \<Rightarrow> question list \<Rightarrow> world \<Rightarrow> exn + run" where
  "main_ind TEST_MODE msin agent questions0 w =
     (let questions = (if TEST_MODE then take 2 questions0 else questions0)
      in case batchLoop
                (\<lambda>question qIndex.
                   processQuestion_ind agent question qIndex
                     (getRequiredForecasts msin (qid question) qIndex))
                questions 0 [] w of
           Inl e \<Rightarrow> Inl e
         | Inr (True, qwf, w1) \<Rightarrow>
             Inr \<lparr>exitStatus = 1, stopped = True, failedQuestions = qwf, finalWorld = w1\<rparr>
         | Inr (False, qwf, w1) \<Rightarrow>
             (if length qwf > 0
              then Inr \<lparr>exitStatus = 1, stopped = False, failedQuestions = qwf, finalWorld = w1\<rparr>
              else Inr \<lparr>exitStatus = 0, stopped = False, failedQuestions = qwf, finalWorld = w1\<rparr>))"

section \<open>Deliberative stage\<close>

definition loadIndependentForecast ::
  "world \<Rightarrow> int \<Rightarrow> string \<Rightarrow> string \<Rightarrow> nat option \<Rightarrow> independent_result option" where
  "loadIndependentForecast w questionId m l inst =
     independentFiles w (numberToString questionId @ ''-'' @ m @ ''-'' @ l @ instanceSuffix inst)"

record task =
  t_question :: question
  t_condition :: string
  t_groupComposition :: "agent_spec list"
  t_independentForecasts :: "independent_result option list"
  t_position :: nat
  t_forecastId :: string

text \<open>
  \<open>groupComposition[position - 1].model\<close> throws a \<open>TypeError\<close> when the position is
  outside the group.
\<close>

definition deliberativeForecastId ::
  "question \<Rightarrow> string \<Rightarrow> agent_spec list \<Rightarrow> nat \<Rightarrow> exn + string" where
  "deliberativeForecastId question condition groupComposition position =
     (case jsIndex groupComposition (int position - 1) of
        None \<Rightarrow> Inl TypeError
      | Some a \<Rightarrow>
          Inr (numberToString (qid question) @ ''-'' @ condition @ ''-'' @ model a @ ''-''
                 @ numberToString (int position)))"

definition createTask ::
  "question \<Rightarrow> string \<Rightarrow> agent_spec list \<Rightarrow> independent_result option list \<Rightarrow> nat \<Rightarrow> exn + task" where
  "createTask question condition groupComposition independentForecasts position =
     (case deliberativeForecastId question condition groupComposition position of
        Inl e \<Rightarrow> Inl e
      | Inr fid \<Rightarrow>
          Inr \<lparr>t_question = question, t_condition = condition,
                t_groupComposition = groupComposition,
                t_independentForecasts = independentForecasts, t_position = position,
                t_forecastId = fid\<rparr>)"

text \<open>\<open>parseInt\<close> of one character: a digit or \<open>NaN\<close> (\<open>None\<close>).\<close>

definition parseIntChar :: "char \<Rightarrow> nat option" where
  "parseIntChar c = (case filter (\<lambda>d. digitChar d = c) [0 ..< 10] of [] \<Rightarrow> None | d # _ \<Rightarrow> Some d)"

definition deliberativeInformation :: "question \<Rightarrow> agent_spec \<Rightarrow> string option" where
  "deliberativeInformation question a =
     (if infoLabel a = ''full'' then Some (join [CHR 0x0A, CHR 0x0A] (informationPackages question))
      else if infoLabel a = ''none'' then Some ''No additional information available.''
      else if infoLabel a = [] then None
      else (case parseIntChar (last (infoLabel a)) of
              None \<Rightarrow> None
            | Some d \<Rightarrow> jsIndex (informationPackages question) (int d - 1)))"

definition generateSingleDeliberativeForecast ::
  "deliberative_agent \<Rightarrow> question \<Rightarrow> string \<Rightarrow> agent_spec list \<Rightarrow> independent_result option list
     \<Rightarrow> nat \<Rightarrow> world \<Rightarrow> exn + task_result \<times> world" where
  "generateSingleDeliberativeForecast agent question condition groupComposition
       independentForecasts position w =
     (case jsIndex groupComposition (int position - 1) of
        None \<Rightarrow> Inl TypeError
      | Some a \<Rightarrow>
         (let fid = numberToString (qid question) @ ''-'' @ condition @ ''-'' @ model a @ ''-''
                      @ numberToString (int position)
          in if deliberativeFiles w fid \<noteq> None
             then Inr (\<lparr>status = Cached, forecastId = fid, errorMessage = None\<rparr>, w)
             else
               (let ownForecast = (case jsIndex independentForecasts (int position - 1) of
                                     None \<Rightarrow> None | Some f \<Rightarrow> f);
                    otherForecasts = map snd (filter (\<lambda>(i, f). int i \<noteq> int position - 1)
                                                (enumerate 0 independentForecasts));
                    information = deliberativeInformation question a;
                    w1 = w\<lparr>calls := calls w
                           @ [DeliberativeCall (qid question) condition (model a) position]\<rparr>
                in case agent (length (calls w)) question information ownForecast otherForecasts
                          (model a) condition position of
                     Inl msg \<Rightarrow> Inr (\<lparr>status = Error, forecastId = fid, errorMessage = Some msg\<rparr>, w1)
                   | Inr result \<Rightarrow>
                       Inr (\<lparr>status = Success, forecastId = fid, errorMessage = None\<rparr>,
                            w1\<lparr>deliberativeFiles := (deliberativeFiles w1)(fid \<mapsto> result)\<rparr>))))"

text \<open>The three calls of \<open>createTask\<close> for the positions 1, 2, 3 of one condition.\<close>

fun createTasks ::
  "question \<Rightarrow> string \<Rightarrow> agent_spec list \<Rightarrow> independent_result option list \<Rightarrow> nat list
     \<Rightarrow> exn + task list" where
  "createTasks question condition gc ifs [] = Inr []"
| "createTasks question condition gc ifs (position # rest) =
     (case createTask question condition gc ifs position of
        Inl e \<Rightarrow> Inl e
      | Inr t \<Rightarrow>
         (case createTasks question condition gc ifs rest of
            Inl e \<Rightarrow> Inl e
          | Inr ts \<Rightarrow> Inr (t # ts)))"

text \<open>The loop over \<open>CONDITIONS\<close> that collects the tasks of a question.\<close>

fun collectTasks ::
  "(real \<Rightarrow> real) \<Rightarrow> world \<Rightarrow> question \<Rightarrow> nat \<Rightarrow> string list \<Rightarrow> task list \<Rightarrow> nat
     \<Rightarrow> exn + task list \<times> nat" where
  "collectTasks msin w question qIndex [] allTasks skipped = Inr (allTasks, skipped)"
| "collectTasks msin w question qIndex (condition # rest) allTasks skipped =
     (case getGroupComposition msin condition (qid question) qIndex of
        Inl e \<Rightarrow> Inl e
      | Inr groupComposition \<Rightarrow>
         (let independentForecasts =
                map (\<lambda>a. loadIndependentForecast w (qid question) (model a) (infoLabel a) (instanceNo a))
                  groupComposition
          in if list_ex (\<lambda>f. f = None) independentForecasts
             then collectTasks msin w question qIndex rest allTasks (skipped + 3)
             else
               (case createTasks question condition groupComposition independentForecasts [1, 2, 3] of
                  Inl e \<Rightarrow> Inl e
                | Inr ts \<Rightarrow> collectTasks msin w question qIndex rest (allTasks @ ts) skipped)))"

record question_result_del = question_result +
  skipped :: nat

definition runTask :: "deliberative_agent \<Rightarrow> task \<Rightarrow> world \<Rightarrow> exn + task_result \<times> world" where
  "runTask agent t w =
     generateSingleDeliberativeForecast agent (t_question t) (t_condition t) (t_groupComposition t)
       (t_independentForecasts t) (t_position t) w"

definition processQuestion_del ::
  "(real \<Rightarrow> real) \<Rightarrow> deliberative_agent \<Rightarrow> question \<Rightarrow> nat \<Rightarrow> world
     \<Rightarrow> exn + question_result_del \<times> world" where
  "processQuestion_del msin agent question qIndex w =
     (case collectTasks msin w question qIndex CONDITIONS [] 0 of
        Inl e \<Rightarrow> Inl e
      | Inr (allTasks, skipped0) \<Rightarrow>
         if length allTasks = 0
         then Inr (\<lparr>results = [], persistentFailures = 0, skipped = skipped0\<rparr>, w)
         else
           (case retryLoop (runTask agent) t_forecastId allTasks [] 0 w of
              Inl e \<Rightarrow> Inl e
            | Inr (pendingTasks, allResults, w1) \<Rightarrow>
               (let persistentFailures0 = length pendingTasks
                in Inr (\<lparr>results =
                           (if persistentFailures0 > 0
                            then allResults @ map (\<lambda>t. persistentFailureOf (t_forecastId t)) pendingTasks
                            else allResults),
                         persistentFailures = persistentFailures0, skipped = skipped0\<rparr>, w1))))"

definition main_del ::
  "bool \<Rightarrow> (real \<Rightarrow> real) \<Rightarrow> deliberative_agent \<Rightarrow> question list \<Rightarrow> world \<Rightarrow> exn + run" where
  "main_del TEST_MODE msin agent questions0 w =
     (let questions = (if TEST_MODE then take 2 questions0 else questions0)
      in case batchLoop (\<lambda>question qIndex. processQuestion_del msin agent question qIndex)
                questions 0 [] w of
           Inl e \<Rightarrow> Inl e
         | Inr (True, qwf, w1) \<Rightarrow>
             Inr \<lparr>exitStatus = 1, stopped = True, failedQuestions = qwf, finalWorld = w1\<rparr>
         | Inr (False, qwf, w1) \<Rightarrow>
             Inr \<lparr>exitStatus = 0, stopped = False, failedQuestions = qwf, finalWorld = w1\<rparr>)"

section \<open>Dataset reducer (\<open>build-analysis-dataset.js\<close>)\<close>

text \<open>
  A row is an object with string keys: an association list, in the order in which the
  keys were written. A field holds \<open>null\<close>, a string or a number. Objects used as
  dictionaries (\<open>questionMap\<close>, \<open>independentMap\<close>) are maps; a later entry with the same
  key replaces the earlier one. \<open>deliberativeByQC\<close> is iterated with \<open>Object.entries\<close>
  and keeps the order in which its keys were first written. The third table of
  \<open>buildDataset\<close> (one row per question) and the unused set \<open>indIds\<close> are left out.
  A lookup in a dictionary finds only what was written to it: the forecast identifiers
  are taken not to be names that every object inherits (\<open>constructor\<close>, \<open>toString\<close>,
  \<open>__proto__\<close>, ...), as is the case for the identifiers the two stages write, which
  start with the number of the question. Every loaded result has the fields of the
  documents the stages write.
\<close>

datatype cell = Null | Str string | Num real

type_synonym row = "(string \<times> cell) list"

record question_entry =
  e_id :: int
  e_title :: string
  e_resolution :: nat

definition questionMapOf :: "question list \<Rightarrow> (int \<rightharpoonup> question_entry)" where
  "questionMapOf questions =
     foldl (\<lambda>m q. m(qid q \<mapsto> \<lparr>e_id = qid q, e_title = questionTitle q,
                                  e_resolution = (if resolution q = ''yes'' then 1 else 0)\<rparr>))
       Map.empty questions"

definition independentMapOf :: "independent_result list \<Rightarrow> (string \<rightharpoonup> independent_result)" where
  "independentMapOf independentForecasts =
     foldl (\<lambda>m f. m(i_forecastId f \<mapsto> f)) Map.empty independentForecasts"

definition independentForecastRow :: "question_entry \<Rightarrow> independent_result \<Rightarrow> row" where
  "independentForecastRow q f =
     [(''question_id'', Num (of_int (i_questionId f))),
      (''resolution'', Num (of_nat (e_resolution q))),
      (''forecast_id'', Str (i_forecastId f)),
      (''stage'', Str ''independent''),
      (''condition'', Str []),
      (''model'', Str (i_model f)),
      (''info_label'', Str (i_infoLabel f)),
      (''position'', Str []),
      (''probability'', Num (probability (i_forecast f)))]"

definition deliberativeForecastRow :: "question_entry \<Rightarrow> deliberative_result \<Rightarrow> row" where
  "deliberativeForecastRow q f =
     [(''question_id'', Num (of_int (d_questionId f))),
      (''resolution'', Num (of_nat (e_resolution q))),
      (''forecast_id'', Str (d_forecastId f)),
      (''stage'', Str ''deliberative''),
      (''condition'', Str (d_condition f)),
      (''model'', Str (d_model f)),
      (''info_label'', Str (d_infoLabel f)),
      (''position'', Num (of_nat (d_position f))),
      (''probability'', Num (probability (d_forecast f)))]"

definition conditionRow ::
  "int \<Rightarrow> question_entry \<Rightarrow> string \<Rightarrow> deliberative_result \<Rightarrow> independent_result \<Rightarrow> row" where
  "conditionRow questionId q condition df indF =
     [(''question_id'', Num (of_int questionId)),
      (''resolution'', Num (of_nat (e_resolution q))),
      (''condition'', Str condition),
      (''model'', Str (d_model df)),
      (''info_label'', Str (d_infoLabel df)),
      (''position'', Num (of_nat (d_position df))),
      (''independent_forecast_id'', Str (d_independentForecastId df)),
      (''deliberative_forecast_id'', Str (d_forecastId df)),
      (''independent_prob'', Num (probability (i_forecast indF))),
      (''deliberative_prob'', Num (probability (d_forecast df)))]"

text \<open>\<open>if (!deliberativeByQC[key]) deliberativeByQC[key] = []; deliberativeByQC[key].push(f)\<close>\<close>

fun pushToGroup ::
  "string \<Rightarrow> deliberative_result \<Rightarrow> (string \<times> deliberative_result list) list
     \<Rightarrow> (string \<times> deliberative_result list) list" where
  "pushToGroup key f [] = [(key, [f])]"
| "pushToGroup key f ((k, g) # rest) =
     (if k = key then (k, g @ [f]) # rest else (k, g) # pushToGroup key f rest)"

definition deliberativeByQC ::
  "deliberative_result list \<Rightarrow> (string \<times> deliberative_result list) list" where
  "deliberativeByQC deliberativeForecasts =
     foldl (\<lambda>groups f. pushToGroup (numberToString (d_questionId f) @ ''-'' @ d_condition f) f groups)
       [] deliberativeForecasts"

definition groupConditionRows ::
  "(int \<rightharpoonup> question_entry) \<Rightarrow> (string \<rightharpoonup> independent_result) \<Rightarrow> deliberative_result list
     \<Rightarrow> row list" where
  "groupConditionRows questionMap independentMap delGroup =
     (case delGroup of
        [] \<Rightarrow> []
      | d0 # _ \<Rightarrow>
         (case questionMap (d_questionId d0) of
            None \<Rightarrow> []
          | Some q \<Rightarrow>
              concat (map (\<lambda>df. case independentMap (d_independentForecastId df) of
                                   None \<Rightarrow> []
                                 | Some indF \<Rightarrow> [conditionRow (d_questionId d0) q (d_condition d0) df indF])
                        delGroup)))"

record dataset =
  forecastRows :: "row list"
  conditionRows :: "row list"

definition buildDataset ::
  "question list \<Rightarrow> independent_result list \<Rightarrow> deliberative_result list \<Rightarrow> dataset" where
  "buildDataset questions independentForecasts deliberativeForecasts =
     (let questionMap = questionMapOf questions;
          independentMap = independentMapOf independentForecasts
      in \<lparr>forecastRows =
             concat (map (\<lambda>f. case questionMap (i_questionId f) of
                                 None \<Rightarrow> [] | Some q \<Rightarrow> [independentForecastRow q f])
                       independentForecasts)
             @ concat (map (\<lambda>f. case questionMap (d_questionId f) of
                                   None \<Rightarrow> [] | Some q \<Rightarrow> [deliberativeForecastRow q f])
                         deliberativeForecasts),
           conditionRows =
             concat (map (\<lambda>(key, delGroup). groupConditionRows questionMap independentMap delGroup)
                       (deliberativeByQC deliberativeForecasts))\<rparr>)"

subsection \<open>\<open>toCSV\<close>\<close>

text \<open>
  The text of a number (\<open>Array.prototype.join\<close> converts it) is a parameter
  \<open>numberText\<close>. The keys of a row are distinct and are not array indices, so
  \<open>Object.keys\<close> lists them in the order of the association list.
\<close>

definition csvValue :: "(real \<Rightarrow> string) \<Rightarrow> cell option \<Rightarrow> string" where
  "csvValue numberText v =
     (case v of
        None \<Rightarrow> []
      | Some Null \<Rightarrow> []
      | Some (Str s) \<Rightarrow>
          if CHR '','' \<in> set s \<or> CHR 0x22 \<in> set s \<or> CHR 0x0A \<in> set s
          then [CHR 0x22] @ concat (map (\<lambda>c. if c = CHR 0x22 then [CHR 0x22, CHR 0x22] else [c]) s)
                 @ [CHR 0x22]
          else s
      | Some (Num n) \<Rightarrow> numberText n)"

definition toCSV :: "(real \<Rightarrow> string) \<Rightarrow> row list \<Rightarrow> string" where
  "toCSV numberText rows =
     (case rows of
        [] \<Rightarrow> []
      | r0 # _ \<Rightarrow>
         (let headers = map fst r0
          in join [CHR 0x0A]
               (join '','' headers
                # map (\<lambda>r. join '','' (map (\<lambda>h. csvValue numberText (map_of r h)) headers)) rows)))"

section \<open>Notions used in the proofs\<close>

definition keyOfSpec :: "agent_spec \<Rightarrow> string" where
  "keyOfSpec r = forecastKey (model r) (infoLabel r) (instanceNo r)"

definition wellFormedCall :: "string \<times> string \<times> nat option \<Rightarrow> bool" where
  "wellFormedCall c = (case c of (m, l, i) \<Rightarrow>
      m \<in> set MODELS \<and> l \<in> {''full'', ''none'', ''info1'', ''info2'', ''info3''}
      \<and> i \<in> {None, Some 1, Some 2, Some 3})"

text \<open>
  For the deliberative stage: the group of a condition, the independent results loaded
  for it, whether all of them are present, and the three tasks of the condition.
\<close>

definition groupOf :: "(real \<Rightarrow> real) \<Rightarrow> question \<Rightarrow> nat \<Rightarrow> string \<Rightarrow> agent_spec list" where
  "groupOf msin question qIndex condition =
     (case getGroupComposition msin condition (qid question) qIndex of Inl e \<Rightarrow> [] | Inr gc \<Rightarrow> gc)"

definition loadedFor :: "world \<Rightarrow> question \<Rightarrow> agent_spec list \<Rightarrow> independent_result option list" where
  "loadedFor w question gc =
     map (\<lambda>a. loadIndependentForecast w (qid question) (model a) (infoLabel a) (instanceNo a)) gc"

definition groupComplete :: "(real \<Rightarrow> real) \<Rightarrow> world \<Rightarrow> question \<Rightarrow> nat \<Rightarrow> string \<Rightarrow> bool" where
  "groupComplete msin w question qIndex condition =
     (\<not> list_ex (\<lambda>f. f = None) (loadedFor w question (groupOf msin question qIndex condition)))"

definition taskFor :: "(real \<Rightarrow> real) \<Rightarrow> world \<Rightarrow> question \<Rightarrow> nat \<Rightarrow> string \<Rightarrow> nat \<Rightarrow> task" where
  "taskFor msin w question qIndex condition position =
     (let gc = groupOf msin question qIndex condition
      in \<lparr>t_question = question, t_condition = condition, t_groupComposition = gc,
           t_independentForecasts = loadedFor w question gc, t_position = position,
           t_forecastId = numberToString (qid question) @ ''-'' @ condition @ ''-''
              @ model (gc ! (position - 1)) @ ''-'' @ numberToString (int position)\<rparr>)"

definition tasksFor :: "(real \<Rightarrow> real) \<Rightarrow> world \<Rightarrow> question \<Rightarrow> nat \<Rightarrow> string \<Rightarrow> task list" where
  "tasksFor msin w question qIndex condition =
     map (taskFor msin w question qIndex condition) [1, 2, 3]"

text \<open>The entry of the call log that a task leaves when the service is called for it.\<close>

definition independentCallOf :: "question \<Rightarrow> agent_spec \<Rightarrow> call" where
  "independentCallOf question req =
     IndependentCall (qid question) (model req) (infoLabel req) (instanceNo req)"

definition deliberativeCallOf :: "task \<Rightarrow> call" where
  "deliberativeCallOf t =
     DeliberativeCall (qid (t_question t)) (t_condition t)
       (model (t_groupComposition t ! (t_position t - 1))) (t_position t)"

section \<open>Example data\<close>

definition exampleQuestion :: question where
  "exampleQuestion =
     \<lparr>qid = 7, questionTitle = ''Will it rain?'', resolution = ''yes'',
      informationPackages = [''a'', ''b'', ''c'']\<rparr>"

definition emptyWorld :: world where
  "emptyWorld = \<lparr>independentFiles = Map.empty, deliberativeFiles = Map.empty, calls = []\<rparr>"

definition failingIndependentAgent :: independent_agent where
  "failingIndependentAgent n question information m l inst = Inl ''timeout''"

definition failingDeliberativeAgent :: deliberative_agent where
  "failingDeliberativeAgent n question information own others m condition position = Inl ''timeout''"

definition exampleIndependentResult :: independent_result where
  "exampleIndependentResult =
     \<lparr>i_forecastId = ''7-pro-full'', i_questionId = 7, i_model = ''pro'', i_infoLabel = ''full'',
      i_instance = None, i_information = Some ''a'',
      i_forecast = \<lparr>probability = 70, rationale = ''r''\<rparr>, i_prompt = ''p''\<rparr>"

definition exampleDeliberativeResult :: deliberative_result where
  "exampleDeliberativeResult =
     \<lparr>d_forecastId = ''7-diverse_full-pro-1'', d_questionId = 7, d_condition = ''diverse_full'',
      d_model = ''pro'', d_position = 1, d_infoLabel = ''full'', d_groupId = ''7-diverse_full'',
      d_independentForecastId = ''7-pro-full'', d_otherForecastIds = [''7-sonnet-full'', ''7-gpt5-full''],
      d_forecast = \<lparr>probability = 65, rationale = ''s''\<rparr>\<rparr>"

text \<open>A store that holds the three independent forecasts of the group \<open>diverse_full\<close>.\<close>

definition diverseFullWorld :: world where
  "diverseFullWorld =
     \<lparr>independentFiles = [''7-pro-full'' \<mapsto> exampleIndependentResult,
                           ''7-sonnet-full'' \<mapsto> exampleIndependentResult,
                           ''7-gpt5-full'' \<mapsto> exampleIndependentResult],
      deliberativeFiles = Map.empty, calls = []\<rparr>"

definition exampleGroup :: "agent_spec list" where
  "exampleGroup =
     [\<lparr>model = ''pro'', infoLabel = ''full'', instanceNo = None\<rparr>,
      \<lparr>model = ''sonnet'', infoLabel = ''full'', instanceNo = None\<rparr>,
      \<lparr>model = ''gpt5'', infoLabel = ''full'', instanceNo = None\<rparr>]"

definition fullWorld :: world where
  "fullWorld =
     \<lparr>independentFiles = (\<lambda>k. Some exampleIndependentResult),
      deliberativeFiles = (\<lambda>k. Some exampleDeliberativeResult), calls = []\<rparr>"

definition msinZero :: "real \<Rightarrow> real" where
  "msinZero x = 0"


text \<open>
  The questions with a persistent failure among the results of processed questions, in
  the order of processing: the tally that \<open>main\<close> keeps in \<open>questionsWithFailures\<close>,
  read off the results.
\<close>

definition tallyOf :: "('a question_result_scheme \<times> question) list \<Rightarrow> int list" where
  "tallyOf rs = map (\<lambda>x. qid (snd x)) (filter (\<lambda>x. persistentFailures (fst x) > 0) rs)"

text \<open>
  The condition-pair rows that one deliberative result gives rise to: one row when its
  question and the independent result it refers to are both loaded, none otherwise.
\<close>

definition pairRowsOf ::
  "question list \<Rightarrow> independent_result list \<Rightarrow> deliberative_result \<Rightarrow> row list" where
  "pairRowsOf questions independentForecasts df =
     (case questionMapOf questions (d_questionId df) of
        None \<Rightarrow> []
      | Some q \<Rightarrow>
          (case independentMapOf independentForecasts (d_independentForecastId df) of
             None \<Rightarrow> []
           | Some indF \<Rightarrow> [conditionRow (d_questionId df) q (d_condition df) df indF]))"








section \<open>Reading a table back\<close>

text \<open>
  The repository writes its tables with \<open>toCSV\<close> and has no reader of its own. The
  reader below is the reference against which \<open>toCSV\<close> is checked; it follows the
  standard quoting rules for delimited text (RFC 4180) and not any code of the
  repository. Fields are separated by commas and records by a line break: a line feed, a
  carriage return, or a carriage return followed by a line feed. A field that starts with
  a quote runs to the next quote that is not doubled; a doubled quote stands for one
  quote, and commas and line breaks inside the quotes belong to the field. A line break
  at the very end of the text ends the last record and starts no new one.
\<close>

datatype reader_mode = FieldStart | Unquoted | Quoted

fun standardReader :: "reader_mode \<Rightarrow> string \<Rightarrow> string list \<Rightarrow> string \<Rightarrow> string list list" where
  "standardReader m field record [] =
     (if m = FieldStart \<and> record = [] then [] else [record @ [field]])"
| "standardReader Quoted field record [c] =
     (if c = CHR 0x22 then standardReader Unquoted field record []
      else standardReader Quoted (field @ [c]) record [])"
| "standardReader Quoted field record (c # d # cs) =
     (if c = CHR 0x22 then
        (if d = CHR 0x22 then standardReader Quoted (field @ [CHR 0x22]) record cs
         else standardReader Unquoted field record (d # cs))
      else standardReader Quoted (field @ [c]) record (d # cs))"
| "standardReader m field record (c # cs) =
     (if c = CHR '','' then standardReader FieldStart [] (record @ [field]) cs
      else if c = CHR 0x0A then (record @ [field]) # standardReader FieldStart [] [] cs
      else if c = CHR 0x0D then (record @ [field]) # standardReader FieldStart [] []
             (if cs \<noteq> [] \<and> hd cs = CHR 0x0A then tl cs else cs)
      else if c = CHR 0x22 \<and> m = FieldStart then standardReader Quoted [] record cs
      else standardReader Unquoted (field @ [c]) record cs)"

definition standardRead :: "string \<Rightarrow> string list list" where
  "standardRead text = standardReader FieldStart [] [] text"

text \<open>
  What a reader is expected to find in a cell: a string value as it is, the text of a
  number, and the empty text for \<open>null\<close> and for a key the row does not have.
\<close>

definition cellText :: "(real \<Rightarrow> string) \<Rightarrow> cell option \<Rightarrow> string" where
  "cellText numberText v =
     (case v of
        None \<Rightarrow> []
      | Some Null \<Rightarrow> []
      | Some (Str s) \<Rightarrow> s
      | Some (Num n) \<Rightarrow> numberText n)"

text \<open>A text with no comma, quote, line feed or carriage return.\<close>

definition plainText :: "string \<Rightarrow> bool" where
  "plainText s \<longleftrightarrow>
     CHR '','' \<notin> set s \<and> CHR 0x22 \<notin> set s \<and> CHR 0x0A \<notin> set s \<and> CHR 0x0D \<notin> set s"

text \<open>
  The cells for which the round trip is proved: a number whose text is plain, and a
  string that holds a carriage return only if it also holds a comma, a quote or a line
  feed (one of the three characters for which \<open>toCSV\<close> quotes the field).
\<close>

definition recoverable :: "(real \<Rightarrow> string) \<Rightarrow> cell option \<Rightarrow> bool" where
  "recoverable numberText v =
     (case v of
        None \<Rightarrow> True
      | Some Null \<Rightarrow> True
      | Some (Str s) \<Rightarrow>
          CHR 0x0D \<in> set s \<longrightarrow> CHR '','' \<in> set s \<or> CHR 0x22 \<in> set s \<or> CHR 0x0A \<in> set s
      | Some (Num n) \<Rightarrow> plainText (numberText n))"

text \<open>
  The text JavaScript gives to a number that is an integer (below \<open>10\<^sup>2\<^sup>1\<close> in
  magnitude), used as \<open>numberText\<close> in the examples.
\<close>

definition integerText :: "real \<Rightarrow> string" where
  "integerText n = numberToString \<lfloor>n\<rfloor>"

text \<open>Example rows: a rationale with a comma, two quotes and a line feed; a title with a
  carriage return and nothing else to quote.\<close>

definition exampleRationale :: string where
  "exampleRationale = ''Rain, she said '' @ [CHR 0x22] @ ''likely'' @ [CHR 0x22, CHR 0x0A] @ ''then sun''"

definition exampleRow :: row where
  "exampleRow = [(''question_id'', Num 7), (''rationale'', Str exampleRationale), (''probability'', Num 70)]"

definition carriageReturnRow :: row where
  "carriageReturnRow = [(''forecast_id'', Str ''7-pro-full''), (''title'', Str (''up'' @ [CHR 0x0D] @ ''down''))]"

section \<open>The seeded shuffle of the stages\<close>

lemma seededRandom_del_eq: "seededRandom_del msin seed = seededRandom_ind msin seed"
  by (simp add: seededRandom_del_def seededRandom_ind_def)

lemma seededRandom_ind_range: "0 \<le> seededRandom_ind msin s \<and> seededRandom_ind msin s < 1"
  by (simp add: seededRandom_ind_def Let_def) linarith

lemma shuffle_index_bound:
  "nat \<lfloor>seededRandom_ind msin s * real (Suc m)\<rfloor> < Suc m"
proof -
  let ?r = "seededRandom_ind msin s"
  have r: "0 \<le> ?r" "?r < 1" using seededRandom_ind_range by auto
  have "?r * real (Suc m) < real (Suc m)" using r by simp
  then have "\<lfloor>?r * real (Suc m)\<rfloor> < int (Suc m)" by (simp add: floor_less_iff)
  then show ?thesis by linarith
qed

lemma hyphen_split:
  "CHR ''-'' \<notin> set a \<Longrightarrow> CHR ''-'' \<notin> set b \<Longrightarrow> a @ CHR ''-'' # r = b @ CHR ''-'' # s \<Longrightarrow> a = b \<and> r = s"
proof (induction a arbitrary: b)
  case Nil
  then show ?case by (cases b) auto
next
  case (Cons x a)
  then show ?case by (cases b) auto
qed

lemma forecastKey_inj:
  assumes "CHR ''-'' \<notin> set m" "CHR ''-'' \<notin> set m'" "CHR ''-'' \<notin> set l" "CHR ''-'' \<notin> set l'"
    and "forecastKey m l i = forecastKey m' l' i'"
  shows "m = m' \<and> l = l' \<and> instanceOrEmpty i = instanceOrEmpty i'"
proof -
  from assms(5) have e: "m @ CHR ''-'' # (l @ CHR ''-'' # instanceOrEmpty i) = m' @ CHR ''-'' # (l' @ CHR ''-'' # instanceOrEmpty i')"
    by (simp add: forecastKey_def)
  from hyphen_split[OF assms(1,2) e] have 1: "m = m'" and 2: "l @ CHR ''-'' # instanceOrEmpty i = l' @ CHR ''-'' # instanceOrEmpty i'" by auto
  from hyphen_split[OF assms(3,4) 2] 1 show ?thesis by auto
qed

lemma seededShuffle_ind_loop_mset:
  "m \<le> length result \<Longrightarrow> mset (seededShuffle_ind_loop msin seed result m) = mset result"
proof (induction m arbitrary: result)
  case 0
  then show ?case by simp
next
  case (Suc m)
  let ?i = "nat \<lfloor>seededRandom_ind msin (seed + real (Suc m)) * real (Suc m)\<rfloor>"
  have i: "?i < length result" using shuffle_index_bound[of msin "seed + real (Suc m)" m] Suc.prems by linarith
  have m: "m < length result" using Suc.prems by simp
  have "mset (result[m := result ! ?i, ?i := result ! m]) = mset result"
    using i m by (simp add: mset_swap)
  moreover have "m \<le> length (result[m := result ! ?i, ?i := result ! m])" using m by simp
  ultimately show ?case using Suc.IH[of "result[m := result ! ?i, ?i := result ! m]"]
    by (simp add: Let_def)
qed

lemma seededShuffle_ind_mset: "mset (seededShuffle_ind msin array seed) = mset array"
  by (simp add: seededShuffle_ind_def seededShuffle_ind_loop_mset)

lemma seededShuffle_ind_length: "length (seededShuffle_ind msin array seed) = length array"
  using seededShuffle_ind_mset[of msin array seed] by (metis size_mset)

lemma seededShuffle_ind_set: "set (seededShuffle_ind msin array seed) = set array"
  using seededShuffle_ind_mset[of msin array seed] by (metis set_mset_mset)

lemma seededShuffle_del_loop_eq:
  "seededShuffle_del_loop msin seed result m = seededShuffle_ind_loop msin seed result m"
  by (induction m arbitrary: result) (simp_all add: seededRandom_del_eq)

lemma seededShuffle_del_eq: "seededShuffle_del msin array seed = seededShuffle_ind msin array seed"
  by (simp add: seededShuffle_del_def seededShuffle_ind_def seededShuffle_del_loop_eq)

lemma foldl_addForecast_set:
  "seen = keyOfSpec ` set required \<Longrightarrow> inj_on keyOfSpec (set required \<union> specOf ` set cs) \<Longrightarrow>
   set (fst (foldl addForecast (required, seen) cs)) = set required \<union> specOf ` set cs"
proof (induction cs arbitrary: required seen)
  case Nil
  then show ?case by simp
next
  case (Cons c cs)
  obtain m l i where c: "c = (m, l, i)" by (cases c) auto
  have k: "forecastKey m l i = keyOfSpec (specOf c)" by (simp add: c keyOfSpec_def specOf_def)
  show ?case
  proof (cases "forecastKey m l i \<in> seen")
    case True
    then obtain r where r: "r \<in> set required" "keyOfSpec r = keyOfSpec (specOf c)"
      using Cons.prems(1) k by auto
    have "r = specOf c"
      by (rule inj_onD[OF Cons.prems(2) r(2)]) (use r(1) in auto)
    then have in_req: "specOf c \<in> set required" using r by simp
    have step: "addForecast (required, seen) c = (required, seen)"
      using True by (simp add: addForecast_def c)
    have inj: "inj_on keyOfSpec (set required \<union> specOf ` set cs)"
      using Cons.prems(2) by (auto intro: inj_on_subset)
    show ?thesis using Cons.IH[OF Cons.prems(1) inj] in_req by (auto simp: step)
  next
    case False
    have step: "addForecast (required, seen) c = (required @ [specOf c], insert (forecastKey m l i) seen)"
      using False by (simp add: addForecast_def c specOf_def)
    have seen': "insert (forecastKey m l i) seen = keyOfSpec ` set (required @ [specOf c])"
      using Cons.prems(1) k by auto
    have inj: "inj_on keyOfSpec (set (required @ [specOf c]) \<union> specOf ` set cs)"
      using Cons.prems(2) by (auto intro: inj_on_subset)
    show ?thesis using Cons.IH[OF seen' inj] by (auto simp: step)
  qed
qed

lemma decimal_digit: "n < 10 \<Longrightarrow> decimal n = [digitChar n]"
  by (simp add: decimal.simps)

lemma instanceOrEmpty_values:
  "instanceOrEmpty None = []" "instanceOrEmpty (Some 1) = ''1''"
  "instanceOrEmpty (Some 2) = ''2''" "instanceOrEmpty (Some 3) = ''3''"
  by (simp_all add: instanceOrEmpty_def decimal_digit digitChar_def)

lemma instanceOrEmpty_inj:
  "i \<in> {None, Some 1, Some 2, Some 3} \<Longrightarrow> i' \<in> {None, Some 1, Some 2, Some 3} \<Longrightarrow>
   instanceOrEmpty i = instanceOrEmpty i' \<Longrightarrow> i = i'"
  using instanceOrEmpty_values by auto

lemma wellFormedCall_hyphen:
  assumes "wellFormedCall (m, l, i)"
  shows "CHR ''-'' \<notin> set m" and "CHR ''-'' \<notin> set l"
proof -
  from assms have "m \<in> set MODELS" by (simp add: wellFormedCall_def)
  then show "CHR ''-'' \<notin> set m" by (auto simp: MODELS_def)
  from assms have "l \<in> {''full'', ''none'', ''info1'', ''info2'', ''info3''}"
    by (simp add: wellFormedCall_def)
  then show "CHR ''-'' \<notin> set l" by auto
qed

lemma keyOfSpec_inj:
  assumes "wellFormedCall c" "wellFormedCall c'" "keyOfSpec (specOf c) = keyOfSpec (specOf c')"
  shows "c = c'"
proof -
  obtain m l i where c: "c = (m, l, i)" by (cases c) auto
  obtain m' l' i' where c': "c' = (m', l', i')" by (cases c') auto
  have h: "CHR ''-'' \<notin> set m" "CHR ''-'' \<notin> set m'" "CHR ''-'' \<notin> set l" "CHR ''-'' \<notin> set l'"
    using assms(1,2) wellFormedCall_hyphen unfolding c c' by blast+
  have k: "forecastKey m l i = forecastKey m' l' i'"
    using assms(3) by (simp add: keyOfSpec_def specOf_def c c')
  from forecastKey_inj[OF h k] have "m = m'" "l = l'" "instanceOrEmpty i = instanceOrEmpty i'" by auto
  moreover have "i = i'"
    using instanceOrEmpty_inj[of i i'] assms(1,2) \<open>instanceOrEmpty i = instanceOrEmpty i'\<close>
    by (simp add: wellFormedCall_def c c')
  ultimately show ?thesis by (simp add: c c')
qed

lemma homoModel_in: "MODELS ! (q mod 3) \<in> set MODELS"
  by (rule nth_mem) (simp add: MODELS_def)

lemma wf_block_diverse_full: "\<forall>c \<in> set block_diverse_full. wellFormedCall c"
  by (auto simp: block_diverse_full_def wellFormedCall_def)

lemma wf_block_sense_check: "\<forall>c \<in> set block_sense_check. wellFormedCall c"
  by (auto simp: block_sense_check_def wellFormedCall_def)

lemma wf_block_homo_full: "\<forall>c \<in> set (block_homo_full q). wellFormedCall c"
  by (simp add: block_homo_full_def wellFormedCall_def homoModel_in Let_def)

lemma wf_block_homo_none: "\<forall>c \<in> set (block_homo_none q). wellFormedCall c"
  by (simp add: block_homo_none_def wellFormedCall_def homoModel_in Let_def)

lemma wf_block_homo_info: "\<forall>c \<in> set (block_homo_info q). wellFormedCall c"
  by (simp add: block_homo_info_def wellFormedCall_def homoModel_in Let_def)

lemma nth_shuffle_in:
  "i < length array \<Longrightarrow> seededShuffle_ind msin array seed ! i \<in> set array"
  using nth_mem[of i "seededShuffle_ind msin array seed"]
  by (simp add: seededShuffle_ind_length seededShuffle_ind_set)

lemma wf_block_diverse_info: "\<forall>c \<in> set (block_diverse_info msin questionId). wellFormedCall c"
proof -
  have m: "\<And>i. i < 3 \<Longrightarrow> seededShuffle_ind msin MODELS (of_int questionId + 1) ! i \<in> set MODELS"
    using nth_shuffle_in[of _ MODELS] by (simp add: MODELS_def)
  have l: "\<And>i. i < 3 \<Longrightarrow> seededShuffle_ind msin [''info1'', ''info2'', ''info3''] (of_int questionId) ! i
       \<in> {''info1'', ''info2'', ''info3''}"
    using nth_shuffle_in[of _ "[''info1'', ''info2'', ''info3'']" msin "of_int questionId"] by simp
  show ?thesis
    using m[of 0] m[of 1] m[of 2] l[of 0] l[of 1] l[of 2]
    by (simp add: block_diverse_info_def wellFormedCall_def Let_def)
qed

lemma wf_all_blocks:
  "\<forall>c \<in> set (block_diverse_full @ block_diverse_info msin questionId @ block_homo_full q
        @ block_sense_check @ block_homo_none q @ block_homo_info q). wellFormedCall c"
  using wf_block_diverse_full wf_block_diverse_info[of msin questionId] wf_block_homo_full[of q]
    wf_block_sense_check wf_block_homo_none[of q] wf_block_homo_info[of q]
  by auto

lemma getRequiredForecasts_set:
  "set (getRequiredForecasts msin questionId q) =
   specOf ` set (block_diverse_full @ block_diverse_info msin questionId @ block_homo_full q
        @ block_sense_check @ block_homo_none q @ block_homo_info q)"
proof -
  let ?cs = "block_diverse_full @ block_diverse_info msin questionId @ block_homo_full q
        @ block_sense_check @ block_homo_none q @ block_homo_info q"
  have "inj_on keyOfSpec (specOf ` set ?cs)"
  proof (rule inj_onI)
    fix x y assume x: "x \<in> specOf ` set ?cs" and y: "y \<in> specOf ` set ?cs"
      and k: "keyOfSpec x = keyOfSpec y"
    from x obtain c where c: "c \<in> set ?cs" "x = specOf c" by blast
    from y obtain c' where c': "c' \<in> set ?cs" "y = specOf c'" by blast
    have "wellFormedCall c" by (rule bspec[OF wf_all_blocks c(1)])
    moreover have "wellFormedCall c'" by (rule bspec[OF wf_all_blocks c'(1)])
    ultimately have "c = c'" using keyOfSpec_inj[of c c'] k by (simp add: c(2) c'(2))
    then show "x = y" by (simp add: c(2) c'(2))
  qed
  then have "inj_on keyOfSpec (set [] \<union> specOf ` set ?cs)" by simp
  from foldl_addForecast_set[OF _ this, of "{}"] show ?thesis
    by (simp add: getRequiredForecasts_def)
qed

lemma getGroupComposition_blockOf:
  "map (\<lambda>c. getGroupComposition msin c questionId qIndex) CONDITIONS
     = map (\<lambda>c. Inr (map specOf (blockOf msin c questionId qIndex))) CONDITIONS"
  by (simp add: CONDITIONS_def getGroupComposition_def blockOf_def block_diverse_full_def
      block_diverse_info_def block_homo_full_def block_sense_check_def block_homo_none_def
      block_homo_info_def specOf_def Let_def seededShuffle_del_eq MODELS_def)

text \<open>
  Claim C1 (cross-stage composition agreement). For every question identifier and question
  index, and for each of the six conditions, \<open>getGroupComposition\<close> of the deliberative
  stage returns, in group order, exactly the (model, information label, instance) triples
  that the block of \<open>getRequiredForecasts\<close> for that condition passes to
  \<open>addForecast\<close>; and the forecasts that \<open>getRequiredForecasts\<close> returns are exactly the
  triples of these six blocks. Both functions compute this from their arguments alone.
\<close>

theorem composition_agreement:
  "map (\<lambda>c. getGroupComposition msin c questionId qIndex) CONDITIONS
     = map (\<lambda>c. Inr (map specOf (blockOf msin c questionId qIndex))) CONDITIONS
   \<and> set (getRequiredForecasts msin questionId qIndex)
     = (\<Union>c \<in> set CONDITIONS. specOf ` set (blockOf msin c questionId qIndex))"
proof
  show "map (\<lambda>c. getGroupComposition msin c questionId qIndex) CONDITIONS
     = map (\<lambda>c. Inr (map specOf (blockOf msin c questionId qIndex))) CONDITIONS"
    by (rule getGroupComposition_blockOf)
  have "(\<Union>c \<in> set CONDITIONS. specOf ` set (blockOf msin c questionId qIndex))
      = specOf ` set (block_diverse_full @ block_diverse_info msin questionId @ block_homo_full qIndex
        @ block_sense_check @ block_homo_none qIndex @ block_homo_info qIndex)"
    by (simp add: CONDITIONS_def blockOf_def image_Un Un_assoc)
  then show "set (getRequiredForecasts msin questionId qIndex)
     = (\<Union>c \<in> set CONDITIONS. specOf ` set (blockOf msin c questionId qIndex))"
    by (simp only: getRequiredForecasts_set)
qed

lemma three_elems: "length xs = 3 \<Longrightarrow> [xs ! 0, xs ! 1, xs ! 2] = xs"
  by (cases xs; cases "tl xs"; cases "tl (tl xs)") auto

lemma diverse_info_composition:
  "getGroupComposition msin ''diverse_info'' questionId qi = Inr gc \<Longrightarrow>
   mset (map model gc) = mset MODELS \<and> mset (map infoLabel gc) = mset [''info1'', ''info2'', ''info3'']"
proof -
  assume a: "getGroupComposition msin ''diverse_info'' questionId qi = Inr gc"
  let ?ms = "seededShuffle_ind msin MODELS (of_int questionId + 1)"
  let ?ls = "seededShuffle_ind msin [''info1'', ''info2'', ''info3''] (of_int questionId)"
  have lm: "length ?ms = 3" by (simp add: seededShuffle_ind_length MODELS_def)
  have ll: "length ?ls = 3" by (simp add: seededShuffle_ind_length)
  from a have gc: "gc = [\<lparr>model = ?ms ! 0, infoLabel = ?ls ! 0, instanceNo = None\<rparr>,
                 \<lparr>model = ?ms ! 1, infoLabel = ?ls ! 1, instanceNo = None\<rparr>,
                 \<lparr>model = ?ms ! 2, infoLabel = ?ls ! 2, instanceNo = None\<rparr>]"
    by (simp add: getGroupComposition_def seededShuffle_del_eq Let_def)
  have "map model gc = ?ms" using three_elems[OF lm] by (simp add: gc)
  moreover have "map infoLabel gc = ?ls" using three_elems[OF ll] by (simp add: gc)
  ultimately show ?thesis by (simp add: seededShuffle_ind_mset)
qed

section \<open>The text of a number\<close>

lemma digitChar_inj: "a < 10 \<Longrightarrow> b < 10 \<Longrightarrow> digitChar a = digitChar b \<Longrightarrow> a = b"
proof -
  assume a: "a < 10" and b: "b < 10" and e: "digitChar a = digitChar b"
  have d: "distinct ''0123456789''" by simp
  have "a < length ''0123456789''" "b < length ''0123456789''" using a b by simp_all
  from nth_eq_iff_index_eq[OF d this] e show "a = b" by (simp add: digitChar_def)
qed

lemma digitChar_not_hyphen: "a < 10 \<Longrightarrow> digitChar a \<noteq> CHR ''-''"
proof -
  assume "a < 10"
  then have "digitChar a \<in> set ''0123456789''" unfolding digitChar_def by (intro nth_mem) simp
  then show ?thesis by auto
qed

lemma decimal_nonempty: "decimal n \<noteq> []"
  by (subst decimal.simps) simp

lemma decimal_no_hyphen: "CHR ''-'' \<notin> set (decimal n)"
proof (induction n rule: decimal.induct)
  case (1 n)
  show ?case
  proof (cases "n < 10")
    case True
    then show ?thesis using digitChar_not_hyphen[of n] by (simp add: decimal_digit)
  next
    case False
    then have "CHR ''-'' \<notin> set (decimal (n div 10))" using 1 by simp
    moreover have "digitChar (n mod 10) \<noteq> CHR ''-''" by (rule digitChar_not_hyphen) simp
    ultimately show ?thesis using False by (subst decimal.simps) auto
  qed
qed

lemma decimal_inj: "decimal n = decimal m \<Longrightarrow> n = m"
proof (induction n arbitrary: m rule: decimal.induct)
  case (1 n)
  show ?case
  proof (cases "n < 10")
    case n: True
    show ?thesis
    proof (cases "m < 10")
      case True
      then show ?thesis using n "1.prems" digitChar_inj by (simp add: decimal_digit)
    next
      case False
      then have "decimal m = decimal (m div 10) @ [digitChar (m mod 10)]"
        by (subst decimal.simps) simp
      then have "length (decimal m) \<ge> 2" using decimal_nonempty[of "m div 10"]
        by (cases "decimal (m div 10)") auto
      moreover have "length (decimal n) = 1" using n by (simp add: decimal_digit)
      ultimately show ?thesis using "1.prems" by simp
    qed
  next
    case n: False
    then have dn: "decimal n = decimal (n div 10) @ [digitChar (n mod 10)]"
      by (subst decimal.simps) simp
    show ?thesis
    proof (cases "m < 10")
      case True
      have "length (decimal n) \<ge> 2" using dn decimal_nonempty[of "n div 10"]
        by (cases "decimal (n div 10)") auto
      moreover have "length (decimal m) = 1" using True by (simp add: decimal_digit)
      ultimately show ?thesis using "1.prems" by simp
    next
      case False
      then have dm: "decimal m = decimal (m div 10) @ [digitChar (m mod 10)]"
        by (subst decimal.simps) simp
      from "1.prems" dn dm have e: "decimal (n div 10) = decimal (m div 10)"
        and d: "digitChar (n mod 10) = digitChar (m mod 10)" by simp_all
      from "1.IH"[OF n e] have 2: "n div 10 = m div 10" .
      from digitChar_inj[OF _ _ d] have 3: "n mod 10 = m mod 10" by simp
      from 2 3 show ?thesis by (metis div_mult_mod_eq)
    qed
  qed
qed

lemma numberToString_key:
  assumes "numberToString i @ CHR ''-'' # r = numberToString j @ CHR ''-'' # s"
  shows "i = j \<and> r = s"
proof -
  have hd_dec: "\<And>n. hd (decimal n) \<noteq> CHR ''-''"
    using decimal_no_hyphen decimal_nonempty by (metis list.set_sel(1))
  consider "i < 0" "j < 0" | "0 \<le> i" "0 \<le> j" | "i < 0" "0 \<le> j" | "0 \<le> i" "j < 0" by linarith
  then show ?thesis
  proof cases
    case 1
    then have "decimal (nat (- i)) @ CHR ''-'' # r = decimal (nat (- j)) @ CHR ''-'' # s"
      using assms by (simp add: numberToString_def)
    from hyphen_split[OF decimal_no_hyphen decimal_no_hyphen this] decimal_inj 1
    show ?thesis by (metis int_nat_eq neg_le_iff_le nat_eq_iff2 neg_equal_iff_equal less_le_not_le
          neg_0_le_iff_le)
  next
    case 2
    then have "decimal (nat i) @ CHR ''-'' # r = decimal (nat j) @ CHR ''-'' # s"
      using assms by (simp add: numberToString_def)
    from hyphen_split[OF decimal_no_hyphen decimal_no_hyphen this] decimal_inj 2
    show ?thesis by (metis nat_eq_iff2)
  next
    case 3
    then have "CHR ''-'' # decimal (nat (- i)) @ CHR ''-'' # r = decimal (nat j) @ CHR ''-'' # s"
      using assms by (simp add: numberToString_def)
    then have "hd (decimal (nat j)) = CHR ''-''"
      using decimal_nonempty[of "nat j"] by (cases "decimal (nat j)") auto
    then show ?thesis using hd_dec by blast
  next
    case 4
    then have "decimal (nat i) @ CHR ''-'' # r = CHR ''-'' # decimal (nat (- j)) @ CHR ''-'' # s"
      using assms by (simp add: numberToString_def)
    then have "hd (decimal (nat i)) = CHR ''-''"
      using decimal_nonempty[of "nat i"] by (cases "decimal (nat i)") auto
    then show ?thesis using hd_dec by blast
  qed
qed



section \<open>Cached tasks, failing tasks and the loops\<close>

lemma generateSingleForecast_cached:
  "independentFiles w (independentForecastId question req) \<noteq> None \<Longrightarrow>
   generateSingleForecast agent question req w =
     Inr (\<lparr>status = Cached, forecastId = independentForecastId question req, errorMessage = None\<rparr>, w)"
  by (simp add: generateSingleForecast_def Let_def)

lemma generateSingleDeliberativeForecast_cached:
  "deliberativeForecastId question condition gc position = Inr fid \<Longrightarrow>
   deliberativeFiles w fid \<noteq> None \<Longrightarrow>
   generateSingleDeliberativeForecast agent question condition gc ifs position w =
     Inr (\<lparr>status = Cached, forecastId = fid, errorMessage = None\<rparr>, w)"
  by (auto simp: generateSingleDeliberativeForecast_def deliberativeForecastId_def Let_def
      split: option.splits)

lemma runTask_cached:
  "createTask question condition gc ifs position = Inr t \<Longrightarrow>
   deliberativeFiles w (t_forecastId t) \<noteq> None \<Longrightarrow>
   runTask agent t w = Inr (\<lparr>status = Cached, forecastId = t_forecastId t, errorMessage = None\<rparr>, w)"
  unfolding runTask_def createTask_def
  by (auto split: sum.splits intro!: generateSingleDeliberativeForecast_cached)

lemma runAll_cached:
  "\<forall>t \<in> set ts. exec t w = Inr (\<lparr>status = Cached, forecastId = idOf t, errorMessage = None\<rparr>, w) \<Longrightarrow>
   runAll exec ts w = Inr (map (\<lambda>t. \<lparr>status = Cached, forecastId = idOf t, errorMessage = None\<rparr>) ts, w)"
  by (induction ts) auto

lemma retryLoop_cached:
  assumes "\<forall>t \<in> set ts. exec t w = Inr (\<lparr>status = Cached, forecastId = idOf t, errorMessage = None\<rparr>, w)"
  shows "retryLoop exec idOf ts [] 0 w =
     Inr ([], map (\<lambda>t. \<lparr>status = Cached, forecastId = idOf t, errorMessage = None\<rparr>) ts, w)"
proof (cases "ts = []")
  case True
  then show ?thesis by (simp add: retryLoop.simps)
next
  case False
  have f: "filter (\<lambda>r. status r = Error) (map (\<lambda>t. \<lparr>status = Cached, forecastId = idOf t, errorMessage = None\<rparr>) ts) = []"
    by (induction ts) auto
  have s: "filter (\<lambda>r. status r = Success \<or> status r = Cached) (map (\<lambda>t. \<lparr>status = Cached, forecastId = idOf t, errorMessage = None\<rparr>) ts)
       = map (\<lambda>t. \<lparr>status = Cached, forecastId = idOf t, errorMessage = None\<rparr>) ts"
    by (induction ts) auto
  show ?thesis
    using False
    using runAll_cached[of ts exec w idOf] assms
    by (subst retryLoop.simps) (simp add: MAX_RETRIES_PER_QUESTION_def f s)
qed

lemma processQuestion_ind_cached:
  assumes "\<forall>req \<in> set reqs. independentFiles w (independentForecastId question req) \<noteq> None"
  shows "processQuestion_ind agent question qIndex reqs w =
     Inr (\<lparr>results = map (\<lambda>req. \<lparr>status = Cached, forecastId = independentForecastId question req,
                                   errorMessage = None\<rparr>) reqs,
           persistentFailures = 0\<rparr>, w)"
proof -
  have "\<forall>t \<in> set reqs. generateSingleForecast agent question t w
      = Inr (\<lparr>status = Cached, forecastId = independentForecastId question t, errorMessage = None\<rparr>, w)"
    using assms by (simp add: generateSingleForecast_cached)
  then show ?thesis
    using retryLoop_cached[of reqs "generateSingleForecast agent question" w "independentForecastId question"]
    by (simp add: processQuestion_ind_def)
qed

lemma processBatch_noop:
  "\<forall>k < length batch. \<exists>r. pq (batch ! k) (b + k) w = Inr (r, w) \<and> persistentFailures r = 0 \<Longrightarrow>
   \<exists>rs. processBatch pq batch b w = Inr (rs, w) \<and> (\<forall>x \<in> set rs. persistentFailures (fst x) = 0)"
proof (induction batch arbitrary: b)
  case Nil
  then show ?case by simp
next
  case (Cons q batch)
  from Cons.prems[rule_format, of 0] obtain r where r: "pq q b w = Inr (r, w)" "persistentFailures r = 0"
    by auto
  have "\<forall>k < length batch. \<exists>r. pq (batch ! k) (Suc b + k) w = Inr (r, w) \<and> persistentFailures r = 0"
    using Cons.prems by (auto dest: spec[of _ "Suc _"])
  from Cons.IH[where b="Suc b", OF this] obtain rs where "processBatch pq batch (Suc b) w = Inr (rs, w)"
    "\<forall>x \<in> set rs. persistentFailures (fst x) = 0" by blast
  then show ?case using r by simp
qed

lemma tallyBatch_none:
  "\<forall>x \<in> set rs. persistentFailures (fst x) = 0 \<Longrightarrow> tallyBatch qwf rs = (False, qwf)"
  by (induction rs) auto

lemma batchLoop_noop:
  assumes "\<forall>k < length qs. \<exists>r. pq (qs ! k) k w = Inr (r, w) \<and> persistentFailures r = 0"
  shows "batchLoop pq qs b qwf w = Inr (False, qwf, w)"
proof (induction "length qs - b" arbitrary: b rule: less_induct)
  case less
  show ?case
  proof (cases "b < length qs")
    case False
    then show ?thesis by (subst batchLoop.simps) simp
  next
    case True
    let ?batch = "take (min (b + BATCH_SIZE) (length qs) - b) (drop b qs)"
    have "\<forall>k < length ?batch. \<exists>r. pq (?batch ! k) (b + k) w = Inr (r, w) \<and> persistentFailures r = 0"
      using assms by auto
    from processBatch_noop[where batch="?batch" and pq=pq and b=b and w=w, OF this] obtain rs where rs: "processBatch pq ?batch b w = Inr (rs, w)"
      "\<forall>x \<in> set rs. persistentFailures (fst x) = 0" by blast
    have "length qs - (b + BATCH_SIZE) < length qs - b" using True by (simp add: BATCH_SIZE_def)
    from less[OF this] have "batchLoop pq qs (b + BATCH_SIZE) qwf w = Inr (False, qwf, w)" .
    then show ?thesis
      using True rs tallyBatch_none[OF rs(2), of qwf]
      by (subst batchLoop.simps) (simp add: Let_def)
  qed
qed

lemma main_ind_populated:
  assumes "\<forall>k < length questions. \<forall>req \<in> set (getRequiredForecasts msin (qid (questions ! k)) k).
             independentFiles w (independentForecastId (questions ! k) req) \<noteq> None"
  shows "main_ind TEST_MODE msin agent questions w =
           Inr \<lparr>exitStatus = 0, stopped = False, failedQuestions = [], finalWorld = w\<rparr>"
proof -
  let ?qs = "if TEST_MODE then take 2 questions else questions"
  let ?pq = "\<lambda>question qIndex. processQuestion_ind agent question qIndex
                     (getRequiredForecasts msin (qid question) qIndex)"
  have "\<forall>k < length ?qs. \<exists>r. ?pq (?qs ! k) k w = Inr (r, w) \<and> persistentFailures r = 0"
    using assms by (auto simp: processQuestion_ind_cached)
  from batchLoop_noop[where qs="?qs" and pq="?pq" and w=w and b=0 and qwf="[]", OF this] show ?thesis
    by (simp add: main_ind_def Let_def)
qed

lemma groupOf_Inr:
  "c \<in> set CONDITIONS \<Longrightarrow>
   getGroupComposition msin c (qid q) k = Inr (groupOf msin q k c) \<and> length (groupOf msin q k c) = 3"
  by (auto simp: CONDITIONS_def groupOf_def getGroupComposition_def Let_def)

lemma createTasks_three:
  "length gc = 3 \<Longrightarrow>
   createTasks q c gc ifs [1, 2, 3] =
     Inr (map (\<lambda>p. \<lparr>t_question = q, t_condition = c, t_groupComposition = gc,
           t_independentForecasts = ifs, t_position = p,
           t_forecastId = numberToString (qid q) @ ''-'' @ c @ ''-''
              @ model (gc ! (p - 1)) @ ''-'' @ numberToString (int p)\<rparr>) [1, 2, 3])"
  by (simp add: createTask_def deliberativeForecastId_def jsIndex_def)

lemma collectTasks_char:
  "set cs \<subseteq> set CONDITIONS \<Longrightarrow>
   collectTasks msin w q k cs acc sk =
     Inr (acc @ concat (map (tasksFor msin w q k) (filter (groupComplete msin w q k) cs)),
          sk + 3 * length (filter (\<lambda>c. \<not> groupComplete msin w q k c) cs))"
proof (induction cs arbitrary: acc sk)
  case Nil
  then show ?case by simp
next
  case (Cons c cs)
  then have c: "c \<in> set CONDITIONS" and cs: "set cs \<subseteq> set CONDITIONS" by auto
  note g = groupOf_Inr[OF c, of msin q k]
  show ?case
  proof (cases "groupComplete msin w q k c")
    case True
    then have ne: "\<not> list_ex (\<lambda>f. f = None) (map (\<lambda>a. loadIndependentForecast w (qid q) (model a) (infoLabel a) (instanceNo a)) (groupOf msin q k c))"
      by (simp add: groupComplete_def loadedFor_def)
    have ct: "createTasks q c (groupOf msin q k c) (loadedFor w q (groupOf msin q k c)) [1, 2, 3]
        = Inr (tasksFor msin w q k c)"
      using createTasks_three[of "groupOf msin q k c" q c] g
      by (simp add: tasksFor_def taskFor_def Let_def)
    show ?thesis
      using True g ne ct Cons.IH[OF cs]
      by (simp add: loadedFor_def Let_def)
  next
    case False
    then have ex: "list_ex (\<lambda>f. f = None) (map (\<lambda>a. loadIndependentForecast w (qid q) (model a) (infoLabel a) (instanceNo a)) (groupOf msin q k c))"
      by (simp add: groupComplete_def loadedFor_def)
    show ?thesis
      using False g ex Cons.IH[OF cs]
      by (simp add: Let_def)
  qed
qed

lemma taskFor_id:
  assumes "c \<in> set CONDITIONS" "p \<in> {1, 2, 3}"
  shows "deliberativeForecastId q c (groupOf msin q k c) p = Inr (t_forecastId (taskFor msin w q k c p))"
proof -
  have "length (groupOf msin q k c) = 3" using groupOf_Inr[OF assms(1)] by simp
  then show ?thesis using assms(2)
    by (auto simp: deliberativeForecastId_def taskFor_def jsIndex_def Let_def)
qed

lemma taskFor_fields:
  "t_question (taskFor msin w q k c p) = q" "t_condition (taskFor msin w q k c p) = c"
  "t_groupComposition (taskFor msin w q k c p) = groupOf msin q k c"
  "t_independentForecasts (taskFor msin w q k c p) = loadedFor w q (groupOf msin q k c)"
  "t_position (taskFor msin w q k c p) = p"
  by (simp_all add: taskFor_def Let_def)

lemma collected_tasks:
  assumes "collectTasks msin w q k CONDITIONS [] 0 = Inr (ts, sk)" "t \<in> set ts"
  shows "\<exists>c p. c \<in> set CONDITIONS \<and> groupComplete msin w q k c \<and> p \<in> {1, 2, 3} \<and> t = taskFor msin w q k c p"
proof -
  have "ts = concat (map (tasksFor msin w q k) (filter (groupComplete msin w q k) CONDITIONS))"
    using assms(1) collectTasks_char[of CONDITIONS msin w q k "[]" 0] by simp
  then show ?thesis using assms(2) by (auto simp: tasksFor_def)
qed

lemma runTask_taskFor_cached:
  assumes "c \<in> set CONDITIONS" "p \<in> {1, 2, 3}"
    and "deliberativeFiles w (t_forecastId (taskFor msin wa q k c p)) \<noteq> None"
  shows "runTask agent (taskFor msin wa q k c p) w =
     Inr (\<lparr>status = Cached, forecastId = t_forecastId (taskFor msin wa q k c p), errorMessage = None\<rparr>, w)"
  unfolding runTask_def taskFor_fields
  by (rule generateSingleDeliberativeForecast_cached[OF taskFor_id[OF assms(1,2)] assms(3)])

lemma processQuestion_del_cached:
  assumes "\<forall>ts sk. collectTasks msin w q k CONDITIONS [] 0 = Inr (ts, sk) \<longrightarrow>
             (\<forall>t \<in> set ts. deliberativeFiles w (t_forecastId t) \<noteq> None)"
  shows "\<exists>r. processQuestion_del msin agent q k w = Inr (r, w) \<and> persistentFailures r = 0"
proof -
  obtain ts sk where c: "collectTasks msin w q k CONDITIONS [] 0 = Inr (ts, sk)"
    using collectTasks_char[of CONDITIONS msin w q k "[]" 0] by simp
  have "\<forall>t \<in> set ts. runTask agent t w
      = Inr (\<lparr>status = Cached, forecastId = t_forecastId t, errorMessage = None\<rparr>, w)"
  proof
    fix t assume t: "t \<in> set ts"
    from collected_tasks[OF c t] obtain cn p where
      "cn \<in> set CONDITIONS" "p \<in> {1, 2, 3}" "t = taskFor msin w q k cn p" by blast
    moreover have "deliberativeFiles w (t_forecastId t) \<noteq> None" using assms c t by blast
    ultimately show "runTask agent t w
      = Inr (\<lparr>status = Cached, forecastId = t_forecastId t, errorMessage = None\<rparr>, w)"
      using runTask_taskFor_cached by blast
  qed
  then have "retryLoop (runTask agent) t_forecastId ts [] 0 w =
     Inr ([], map (\<lambda>t. \<lparr>status = Cached, forecastId = t_forecastId t, errorMessage = None\<rparr>) ts, w)"
    using retryLoop_cached[of ts "runTask agent" w t_forecastId] by simp
  then show ?thesis
    by (simp add: processQuestion_del_def c)
qed

lemma main_del_populated:
  assumes "\<forall>k < length questions. \<forall>ts sk.
             collectTasks msin w (questions ! k) k CONDITIONS [] 0 = Inr (ts, sk) \<longrightarrow>
             (\<forall>t \<in> set ts. deliberativeFiles w (t_forecastId t) \<noteq> None)"
  shows "main_del TEST_MODE msin agent questions w =
           Inr \<lparr>exitStatus = 0, stopped = False, failedQuestions = [], finalWorld = w\<rparr>"
proof -
  let ?qs = "if TEST_MODE then take 2 questions else questions"
  let ?pq = "\<lambda>question qIndex. processQuestion_del msin agent question qIndex"
  have "\<forall>k < length ?qs. \<exists>r. ?pq (?qs ! k) k w = Inr (r, w) \<and> persistentFailures r = 0"
    using assms by (auto intro!: processQuestion_del_cached)
  from batchLoop_noop[where qs="?qs" and pq="?pq" and w=w and b=0 and qwf="[]", OF this] show ?thesis
    by (simp add: main_del_def Let_def)
qed

lemma runAll_all_fail:
  assumes step: "\<And>t w. t \<in> set pending \<Longrightarrow> I w \<Longrightarrow>
      (\<exists>msg. exec t w = Inr (\<lparr>status = Error, forecastId = idOf t, errorMessage = Some msg\<rparr>,
                              w\<lparr>calls := calls w @ [callOf t]\<rparr>))
      \<and> I (w\<lparr>calls := calls w @ [callOf t]\<rparr>)"
  shows "set ts \<subseteq> set pending \<Longrightarrow> I w \<Longrightarrow>
    \<exists>rs. runAll exec ts w = Inr (rs, w\<lparr>calls := calls w @ map callOf ts\<rparr>)
       \<and> map forecastId rs = map idOf ts \<and> (\<forall>r \<in> set rs. status r = Error)
       \<and> I (w\<lparr>calls := calls w @ map callOf ts\<rparr>)"
proof (induction ts arbitrary: w)
  case Nil
  then show ?case by simp
next
  case (Cons t ts)
  let ?w1 = "w\<lparr>calls := calls w @ [callOf t]\<rparr>"
  from step[of t w] Cons.prems obtain msg where
    e: "exec t w = Inr (\<lparr>status = Error, forecastId = idOf t, errorMessage = Some msg\<rparr>, ?w1)"
    and i1: "I ?w1" by auto
  from Cons.IH[OF _ i1] Cons.prems obtain rs where
    rs: "runAll exec ts ?w1 = Inr (rs, ?w1\<lparr>calls := calls ?w1 @ map callOf ts\<rparr>)"
      "map forecastId rs = map idOf ts" "\<forall>r \<in> set rs. status r = Error"
      "I (?w1\<lparr>calls := calls ?w1 @ map callOf ts\<rparr>)" by auto
  show ?case
    using e rs by simp
qed

lemma filter_all: "\<forall>x \<in> set xs. P x \<Longrightarrow> filter P xs = xs"
  by (induction xs) auto

lemma filter_none: "\<forall>x \<in> set xs. \<not> P x \<Longrightarrow> filter P xs = []"
  by (induction xs) auto

lemma retryLoop_all_fail:
  assumes step: "\<And>t w. t \<in> set pending \<Longrightarrow> I w \<Longrightarrow>
      (\<exists>msg. exec t w = Inr (\<lparr>status = Error, forecastId = idOf t, errorMessage = Some msg\<rparr>,
                              w\<lparr>calls := calls w @ [callOf t]\<rparr>))
      \<and> I (w\<lparr>calls := calls w @ [callOf t]\<rparr>)"
    and ne: "pending \<noteq> []"
  shows "I w \<Longrightarrow> n \<le> MAX_RETRIES_PER_QUESTION \<Longrightarrow>
    retryLoop exec idOf pending acc n w =
      Inr (pending, acc,
           w\<lparr>calls := calls w @ concat (replicate (MAX_RETRIES_PER_QUESTION - n) (map callOf pending))\<rparr>)
    \<and> I (w\<lparr>calls := calls w @ concat (replicate (MAX_RETRIES_PER_QUESTION - n) (map callOf pending))\<rparr>)"
proof (induction "MAX_RETRIES_PER_QUESTION - n" arbitrary: n w)
  case 0
  then have "n = MAX_RETRIES_PER_QUESTION" by simp
  then show ?case using 0 by (subst retryLoop.simps) simp
next
  case (Suc d)
  then have n: "n < MAX_RETRIES_PER_QUESTION" by simp
  let ?w1 = "w\<lparr>calls := calls w @ map callOf pending\<rparr>"
  from runAll_all_fail[where exec=exec and I=I and pending=pending and idOf=idOf and callOf=callOf
      and ts=pending and w=w, OF step _ Suc.prems(1)]
  obtain rs where rs: "runAll exec pending w = Inr (rs, ?w1)"
    "map forecastId rs = map idOf pending" "\<forall>r \<in> set rs. status r = Error" "I ?w1"
    by auto
  have rne: "rs \<noteq> []" using rs(2) ne by auto
  have f1: "filter (\<lambda>r. status r = Error) rs = rs" using rs(3) by (simp add: filter_all)
  have f2: "filter (\<lambda>r. status r = Success \<or> status r = Cached) rs = []"
    using rs(3) by (simp add: filter_none)
  have "\<forall>t \<in> set pending. list_ex (\<lambda>f. forecastId f = idOf t) rs"
  proof
    fix t assume "t \<in> set pending"
    then have "idOf t \<in> set (map forecastId rs)" by (simp add: rs(2))
    then show "list_ex (\<lambda>f. forecastId f = idOf t) rs" by (auto simp: list_ex_iff)
  qed
  then have f3: "filter (\<lambda>t. list_ex (\<lambda>f. forecastId f = idOf t) rs) pending = pending"
    by (simp add: filter_all)
  have d: "d = MAX_RETRIES_PER_QUESTION - Suc n" using Suc.hyps(2) by simp
  have le: "Suc n \<le> MAX_RETRIES_PER_QUESTION" using n by simp
  from Suc.hyps(1)[OF d rs(4) le]
  have ih: "retryLoop exec idOf pending acc (Suc n) ?w1 =
      Inr (pending, acc,
           ?w1\<lparr>calls := calls ?w1 @ concat (replicate (MAX_RETRIES_PER_QUESTION - Suc n) (map callOf pending))\<rparr>)"
    and ih2: "I (?w1\<lparr>calls := calls ?w1 @ concat (replicate (MAX_RETRIES_PER_QUESTION - Suc n) (map callOf pending))\<rparr>)"
    by auto
  have rep: "MAX_RETRIES_PER_QUESTION - n = Suc (MAX_RETRIES_PER_QUESTION - Suc n)" using n by simp
  show ?case
    using n ne rs(1) rne ih ih2
    by (subst retryLoop.simps) (simp add: f1 f2 f3 rep)
qed

lemma generateSingleForecast_fails:
  assumes "independentFiles w (independentForecastId q req) = None"
    and "getInformation q (infoLabel req) = Inr info"
    and "agent (length (calls w)) q info (model req) (infoLabel req) (instanceNo req) = Inl msg"
  shows "generateSingleForecast agent q req w =
     Inr (\<lparr>status = Error, forecastId = independentForecastId q req, errorMessage = Some msg\<rparr>,
          w\<lparr>calls := calls w @ [independentCallOf q req]\<rparr>)"
  using assms by (simp add: generateSingleForecast_def independentCallOf_def Let_def)

lemma generateSingleDeliberativeForecast_fails:
  assumes "jsIndex gc (int p - 1) = Some a"
    and "deliberativeForecastId q c gc p = Inr fid"
    and "deliberativeFiles w fid = None"
    and "agent (length (calls w)) q (deliberativeInformation q a)
           (case jsIndex ifs (int p - 1) of None \<Rightarrow> None | Some f \<Rightarrow> f)
           (map snd (filter (\<lambda>(i, f). int i \<noteq> int p - 1) (enumerate 0 ifs)))
           (model a) c p = Inl msg"
  shows "generateSingleDeliberativeForecast agent q c gc ifs p w =
     Inr (\<lparr>status = Error, forecastId = fid, errorMessage = Some msg\<rparr>,
          w\<lparr>calls := calls w @ [DeliberativeCall (qid q) c (model a) p]\<rparr>)"
  using assms by (auto simp: generateSingleDeliberativeForecast_def deliberativeForecastId_def Let_def)

lemma taskFor_agent:
  assumes "c \<in> set CONDITIONS" "p \<in> {1, 2, 3}"
  shows "jsIndex (groupOf msin q k c) (int p - 1) = Some (groupOf msin q k c ! (p - 1))"
proof -
  have "length (groupOf msin q k c) = 3" using groupOf_Inr[OF assms(1)] by simp
  then show ?thesis using assms(2) by (auto simp: jsIndex_def)
qed

lemma runTask_taskFor_fails:
  assumes c: "c \<in> set CONDITIONS" and p: "p \<in> {1, 2, 3}"
    and "deliberativeFiles w (t_forecastId (taskFor msin wa q k c p)) = None"
    and fails: "\<And>n info own others m. \<exists>msg. agent n q info own others m c p = Inl msg"
  shows "\<exists>msg. runTask agent (taskFor msin wa q k c p) w =
     Inr (\<lparr>status = Error, forecastId = t_forecastId (taskFor msin wa q k c p), errorMessage = Some msg\<rparr>,
          w\<lparr>calls := calls w @ [deliberativeCallOf (taskFor msin wa q k c p)]\<rparr>)"
proof -
  let ?gc = "groupOf msin q k c"
  let ?ifs = "loadedFor wa q ?gc"
  obtain msg where m: "agent (length (calls w)) q (deliberativeInformation q (?gc ! (p - 1)))
           (case jsIndex ?ifs (int p - 1) of None \<Rightarrow> None | Some f \<Rightarrow> f)
           (map snd (filter (\<lambda>(i, f). int i \<noteq> int p - 1) (enumerate 0 ?ifs)))
           (model (?gc ! (p - 1))) c p = Inl msg"
    using fails by blast
  from generateSingleDeliberativeForecast_fails[where gc="?gc" and p=p and q=q and c=c and ifs="?ifs"
      and w=w and agent=agent and a="?gc ! (p - 1)" and fid="t_forecastId (taskFor msin wa q k c p)",
      OF taskFor_agent[OF c p] taskFor_id[OF c p] assms(3) m]
  show ?thesis
    by (auto simp: runTask_def taskFor_fields deliberativeCallOf_def)
qed

lemma processQuestion_ind_all_fail:
  assumes ne: "reqs \<noteq> []"
    and absent: "\<forall>req \<in> set reqs. independentFiles w (independentForecastId q req) = None"
    and known: "\<forall>req \<in> set reqs. \<exists>info. getInformation q (infoLabel req) = Inr info"
    and fails: "\<forall>req \<in> set reqs. \<forall>n info. \<exists>msg.
                  agent n q info (model req) (infoLabel req) (instanceNo req) = Inl msg"
  shows "processQuestion_ind agent q k reqs w =
     Inr (\<lparr>results = map (\<lambda>req. persistentFailureOf (independentForecastId q req)) reqs,
            persistentFailures = length reqs\<rparr>,
          w\<lparr>calls := calls w @ concat (replicate MAX_RETRIES_PER_QUESTION (map (independentCallOf q) reqs))\<rparr>)"
proof -
  let ?I = "\<lambda>w'::world. independentFiles w' = independentFiles w"
  have step: "\<And>t w'. t \<in> set reqs \<Longrightarrow> ?I w' \<Longrightarrow>
      (\<exists>msg. generateSingleForecast agent q t w' =
          Inr (\<lparr>status = Error, forecastId = independentForecastId q t, errorMessage = Some msg\<rparr>,
               w'\<lparr>calls := calls w' @ [independentCallOf q t]\<rparr>))
      \<and> ?I (w'\<lparr>calls := calls w' @ [independentCallOf q t]\<rparr>)"
  proof -
    fix t and w' :: world assume t: "t \<in> set reqs" and i: "?I w'"
    from known t obtain info where info: "getInformation q (infoLabel t) = Inr info" by blast
    from fails t obtain msg where
      "agent (length (calls w')) q info (model t) (infoLabel t) (instanceNo t) = Inl msg" by blast
    moreover have "independentFiles w' (independentForecastId q t) = None" using absent t i by simp
    ultimately show "(\<exists>msg. generateSingleForecast agent q t w' =
          Inr (\<lparr>status = Error, forecastId = independentForecastId q t, errorMessage = Some msg\<rparr>,
               w'\<lparr>calls := calls w' @ [independentCallOf q t]\<rparr>))
      \<and> ?I (w'\<lparr>calls := calls w' @ [independentCallOf q t]\<rparr>)"
      using generateSingleForecast_fails[OF _ info] i by auto
  qed
  from retryLoop_all_fail[where exec="generateSingleForecast agent q" and I="?I" and pending=reqs
      and idOf="independentForecastId q" and callOf="independentCallOf q" and w=w and n=0
      and acc="[]", OF step ne]
  show ?thesis using ne
    by (simp add: processQuestion_ind_def)
qed

lemma processQuestion_del_all_fail:
  assumes coll: "collectTasks msin w q k CONDITIONS [] 0 = Inr (ts, sk)"
    and ne: "ts \<noteq> []"
    and absent: "\<forall>t \<in> set ts. deliberativeFiles w (t_forecastId t) = None"
    and fails: "\<forall>n info own others m c p. \<exists>msg. agent n q info own others m c p = Inl msg"
  shows "processQuestion_del msin agent q k w =
     Inr (\<lparr>results = map (\<lambda>t. persistentFailureOf (t_forecastId t)) ts,
            persistentFailures = length ts, skipped = sk\<rparr>,
          w\<lparr>calls := calls w @ concat (replicate MAX_RETRIES_PER_QUESTION (map deliberativeCallOf ts))\<rparr>)"
proof -
  let ?I = "\<lambda>w'::world. deliberativeFiles w' = deliberativeFiles w"
  have step: "\<And>t w'. t \<in> set ts \<Longrightarrow> ?I w' \<Longrightarrow>
      (\<exists>msg. runTask agent t w' =
          Inr (\<lparr>status = Error, forecastId = t_forecastId t, errorMessage = Some msg\<rparr>,
               w'\<lparr>calls := calls w' @ [deliberativeCallOf t]\<rparr>))
      \<and> ?I (w'\<lparr>calls := calls w' @ [deliberativeCallOf t]\<rparr>)"
  proof -
    fix t and w' :: world assume t: "t \<in> set ts" and i: "?I w'"
    from collected_tasks[OF coll t] obtain c p where
      cp: "c \<in> set CONDITIONS" "p \<in> {1, 2, 3}" "t = taskFor msin w q k c p" by blast
    have a: "deliberativeFiles w' (t_forecastId (taskFor msin w q k c p)) = None"
      using absent t i cp(3) by simp
    have f: "\<And>n info own others m. \<exists>msg. agent n q info own others m c p = Inl msg"
      using fails by blast
    from runTask_taskFor_fails[where agent=agent and q=q and wa=w and w="w'" and msin=msin and k=k, OF cp(1,2) a f]
    show "(\<exists>msg. runTask agent t w' =
          Inr (\<lparr>status = Error, forecastId = t_forecastId t, errorMessage = Some msg\<rparr>,
               w'\<lparr>calls := calls w' @ [deliberativeCallOf t]\<rparr>))
      \<and> ?I (w'\<lparr>calls := calls w' @ [deliberativeCallOf t]\<rparr>)"
      using i cp(3) by simp
  qed
  from retryLoop_all_fail[where exec="runTask agent" and I="?I" and pending=ts
      and idOf="t_forecastId" and callOf="deliberativeCallOf" and w=w and n=0
      and acc="[]", OF step ne]
  show ?thesis using ne
    by (simp add: processQuestion_del_def coll)
qed

lemma numberToString_7: "numberToString 7 = ''7''"
  by (simp add: numberToString_def decimal_digit digitChar_def)

lemma numberToString_small: "numberToString 1 = ''1''" "numberToString 2 = ''2''" "numberToString 3 = ''3''"
  by (simp_all add: numberToString_def decimal_digit digitChar_def)

lemma shuffle_zero: "seededShuffle_ind (\<lambda>_. 0) [a, b, c] s = [b, c, a]"
  by (simp add: seededShuffle_ind_def seededRandom_ind_def numeral_3_eq_3)

lemma ex_collect:
  "collectTasks (\<lambda>_. 0) diverseFullWorld exampleQuestion 0 CONDITIONS [] 0
     = Inr (tasksFor (\<lambda>_. 0) diverseFullWorld exampleQuestion 0 ''diverse_full'', 15)"
  apply (subst collectTasks_char)
   apply simp
  apply (simp add: CONDITIONS_def groupComplete_def loadedFor_def groupOf_def getGroupComposition_def
      loadIndependentForecast_def diverseFullWorld_def exampleQuestion_def numberToString_7
      instanceSuffix_def decimal_digit digitChar_def MODELS_def seededShuffle_del_eq shuffle_zero Let_def)
  done










lemma take_take_le: "k \<le> m \<Longrightarrow> take k (take m xs) = take k xs"
  by (simp add: min_def)






section \<open>The seeded shuffle on JavaScript numbers\<close>

lemma threshold_big: "10000 < OVERFLOW_THRESHOLD"
proof -
  have "(2::real) ^ 970 * 2 \<le> 2 ^ 1024" by (simp add: power_increasing flip: power_Suc2)
  moreover have "(10000::real) < 2 ^ 970" 
  proof -
    have "(10000::real) < 2 ^ 14" by simp
    also have "\<dots> \<le> 2 ^ 970" by (rule power_increasing) simp_all
    finally show ?thesis .
  qed
  ultimately show ?thesis by (simp add: OVERFLOW_THRESHOLD_def)
qed

lemma fromExact_Finite: "\<bar>r\<bar> < OVERFLOW_THRESHOLD \<Longrightarrow> fromExact r = Finite r"
  by (auto simp: fromExact_def)

lemma seededRandom_js_in_range:
  assumes "\<bar>s * 9999\<bar> < OVERFLOW_THRESHOLD" "\<forall>y. \<bar>msin y\<bar> \<le> 1"
  shows "seededRandom_js msin (Finite s) = Finite (seededRandom_ind msin s)"
proof -
  let ?x = "msin (s * 9999) * 10000"
  have 1: "jsMul (Finite s) (Finite 9999) = Finite (s * 9999)"
    using assms(1) by (simp add: fromExact_Finite)
  have "\<bar>?x\<bar> \<le> 10000" using assms(2)[rule_format, of "s * 9999"] by (simp add: abs_mult)
  then have "\<bar>?x\<bar> < OVERFLOW_THRESHOLD" using threshold_big by linarith
  then have 2: "jsMul (Finite (msin (s * 9999))) (Finite 10000) = Finite ?x"
    by (simp add: fromExact_Finite)
  have "0 \<le> ?x - of_int \<lfloor>?x\<rfloor>" "?x - of_int \<lfloor>?x\<rfloor> < 1" by linarith+
  then have "\<bar>?x - of_int \<lfloor>?x\<rfloor>\<bar> < OVERFLOW_THRESHOLD" using threshold_big by linarith
  then have 3: "jsSub (Finite ?x) (jsFloor (Finite ?x)) = Finite (?x - of_int \<lfloor>?x\<rfloor>)"
    by (simp add: jsSub_def fromExact_Finite)
  show ?thesis
    by (simp only: seededRandom_js_def Let_def 1 jsSin.simps 2 3 seededRandom_ind_def)
qed

lemma indexOf_nat: "indexOf (Finite (real j)) = Some j"
  by (simp add: indexOf_def)

lemma seedInRange_step:
  assumes "seedInRange n s" "Suc m \<le> n"
  shows "\<bar>s + real (Suc m)\<bar> < OVERFLOW_THRESHOLD" "\<bar>(s + real (Suc m)) * 9999\<bar> < OVERFLOW_THRESHOLD"
    "real (Suc m) < OVERFLOW_THRESHOLD"
proof -
  have "Suc m \<in> {1 .. n}" using assms(2) by simp
  with assms(1) show 2: "\<bar>(s + real (Suc m)) * 9999\<bar> < OVERFLOW_THRESHOLD"
    unfolding seedInRange_def by blast
  have "\<bar>s + real (Suc m)\<bar> \<le> \<bar>(s + real (Suc m)) * 9999\<bar>" by (simp add: abs_mult)
  with 2 show "\<bar>s + real (Suc m)\<bar> < OVERFLOW_THRESHOLD" by linarith
  have "real (Suc m) \<le> real n" using assms(2) by simp
  with assms(1) show "real (Suc m) < OVERFLOW_THRESHOLD" unfolding seedInRange_def by linarith
qed

lemma shuffle_index_js:
  assumes "seedInRange n s" "Suc m \<le> n" "\<forall>y. \<bar>msin y\<bar> \<le> 1"
  shows "jsFloor (jsMul (seededRandom_js msin (jsAdd (Finite s) (Finite (real (Suc m)))))
                    (Finite (real (Suc m))))
         = Finite (real (nat \<lfloor>seededRandom_ind msin (s + real (Suc m)) * real (Suc m)\<rfloor>))"
proof -
  note r = seedInRange_step[OF assms(1,2)]
  let ?r = "seededRandom_ind msin (s + real (Suc m))"
  have 1: "jsAdd (Finite s) (Finite (real (Suc m))) = Finite (s + real (Suc m))"
    using r(1) by (simp add: fromExact_Finite)
  have 2: "seededRandom_js msin (Finite (s + real (Suc m))) = Finite ?r"
    by (rule seededRandom_js_in_range[OF r(2) assms(3)])
  have rr: "0 \<le> ?r" "?r < 1" using seededRandom_ind_range by auto
  have nn: "0 \<le> ?r * real (Suc m)" using rr by simp
  have "?r * real (Suc m) \<le> real (Suc m)" using rr by (simp add: mult_left_le_one_le)
  then have "\<bar>?r * real (Suc m)\<bar> < OVERFLOW_THRESHOLD" using nn r(3) by linarith
  then have 3: "jsMul (Finite ?r) (Finite (real (Suc m))) = Finite (?r * real (Suc m))"
    by (simp add: fromExact_Finite)
  have 4: "of_int \<lfloor>?r * real (Suc m)\<rfloor> = real (nat \<lfloor>?r * real (Suc m)\<rfloor>)"
    using nn by simp
  show ?thesis by (simp only: 1 2 3 jsFloor.simps 4)
qed

lemma shuffleStep_in_range:
  assumes "seedInRange n s" "Suc m \<le> n" "\<forall>y. \<bar>msin y\<bar> \<le> 1" "m < length xs"
  shows "shuffleStep msin (Finite s) m \<lparr>elements = map Some xs, otherProps = (\<lambda>k. None)\<rparr>
         = \<lparr>elements = map Some
               (let i = nat \<lfloor>seededRandom_ind msin (s + real (Suc m)) * real (Suc m)\<rfloor>
                in xs[m := xs ! i, i := xs ! m]),
            otherProps = (\<lambda>k. None)\<rparr>"
proof -
  let ?i = "nat \<lfloor>seededRandom_ind msin (s + real (Suc m)) * real (Suc m)\<rfloor>"
  have i: "?i < Suc m" by (rule shuffle_index_bound)
  then have il: "?i < length xs" using assms(4) by simp
  show ?thesis
    unfolding shuffleStep_def shuffle_index_js[OF assms(1,2,3)]
    using il assms(4)
    by (simp add: Let_def getProp_def setProp_def indexOf_nat map_update)
qed

lemma seededShuffle_js_loop_in_range:
  assumes "seedInRange n s" "\<forall>y. \<bar>msin y\<bar> \<le> 1"
  shows "m \<le> n \<Longrightarrow> m \<le> length xs \<Longrightarrow>
         seededShuffle_js_loop msin (Finite s) \<lparr>elements = map Some xs, otherProps = (\<lambda>k. None)\<rparr> m
           = \<lparr>elements = map Some (seededShuffle_ind_loop msin s xs m), otherProps = (\<lambda>k. None)\<rparr>"
proof (induction m arbitrary: xs)
  case 0
  then show ?case by simp
next
  case (Suc m)
  have ml: "m < length xs" using Suc.prems(2) by simp
  let ?i = "nat \<lfloor>seededRandom_ind msin (s + real (Suc m)) * real (Suc m)\<rfloor>"
  let ?ys = "xs[m := xs ! ?i, ?i := xs ! m]"
  have st: "shuffleStep msin (Finite s) m \<lparr>elements = map Some xs, otherProps = (\<lambda>k. None)\<rparr>
         = \<lparr>elements = map Some ?ys, otherProps = (\<lambda>k. None)\<rparr>"
    using shuffleStep_in_range[OF assms(1) Suc.prems(1) assms(2) ml] by (simp add: Let_def)
  have "m \<le> n" "m \<le> length ?ys" using Suc.prems by simp_all
  from Suc.IH[OF this] show ?case by (simp add: st Let_def)
qed

lemma seededShuffle_js_in_range:
  assumes "seedInRange (length xs) s" "\<forall>y. \<bar>msin y\<bar> \<le> 1"
  shows "seededShuffle_js msin (map Some xs) (Finite s) = map Some (seededShuffle_ind msin xs s)"
  using seededShuffle_js_loop_in_range[OF assms, of "length xs" xs]
  by (simp add: seededShuffle_js_def seededShuffle_ind_def)

lemma heap_loop_length: "length (seededShuffle_heap_loop msin seed r h m) = length h"
  by (induction m arbitrary: h) simp_all

lemma heap_loop_other:
  "a \<noteq> r \<Longrightarrow> seededShuffle_heap_loop msin seed r h m ! a = h ! a"
  by (induction m arbitrary: h) simp_all

lemma heap_loop_result:
  "r < length h \<Longrightarrow>
   seededShuffle_heap_loop msin seed r h m ! r = seededShuffle_js_loop msin seed (h ! r) m"
  by (induction m arbitrary: h) simp_all

lemma seededShuffle_heap_correct:
  assumes "seededShuffle_heap msin h array seed = (h', result)"
  shows "result = length h" and "length h' = Suc (length h)"
    and "take (length h) h' = h"
    and "elements (h' ! result) = seededShuffle_js msin (elements (h ! array)) seed"
proof -
  let ?new = "\<lparr>elements = elements (h ! array), otherProps = (\<lambda>k. None)\<rparr>"
  from assms have r: "result = length h"
    and h': "h' = seededShuffle_heap_loop msin seed (length h) (h @ [?new])
                    (length (elements ((h @ [?new]) ! length h)))"
    by (auto simp: seededShuffle_heap_def Let_def)
  show "result = length h" by fact
  show l: "length h' = Suc (length h)" by (simp add: h' heap_loop_length)
  have "\<forall>a < length h. h' ! a = h ! a" by (simp add: h' heap_loop_other nth_append)
  then show "take (length h) h' = h" using l by (intro nth_equalityI) simp_all
  show "elements (h' ! result) = seededShuffle_js msin (elements (h ! array)) seed"
    by (simp add: h' r heap_loop_result seededShuffle_js_def)
qed

lemma diverse_info_shuffles:
  assumes "getGroupComposition msin ''diverse_info'' questionId qi = Inr gc"
  shows "map model gc = seededShuffle_ind msin MODELS (of_int questionId + 1)"
    and "map infoLabel gc = seededShuffle_ind msin [''info1'', ''info2'', ''info3''] (of_int questionId)"
    and "length gc = 3"
proof -
  let ?ms = "seededShuffle_ind msin MODELS (of_int questionId + 1)"
  let ?ls = "seededShuffle_ind msin [''info1'', ''info2'', ''info3''] (of_int questionId)"
  have lm: "length ?ms = 3" by (simp add: seededShuffle_ind_length MODELS_def)
  have ll: "length ?ls = 3" by (simp add: seededShuffle_ind_length)
  from assms have gc: "gc = [\<lparr>model = ?ms ! 0, infoLabel = ?ls ! 0, instanceNo = None\<rparr>,
                 \<lparr>model = ?ms ! 1, infoLabel = ?ls ! 1, instanceNo = None\<rparr>,
                 \<lparr>model = ?ms ! 2, infoLabel = ?ls ! 2, instanceNo = None\<rparr>]"
    by (simp add: getGroupComposition_def seededShuffle_del_eq Let_def)
  show "map model gc = ?ms" using three_elems[OF lm] by (simp add: gc)
  show "map infoLabel gc = ?ls" using three_elems[OF ll] by (simp add: gc)
  show "length gc = 3" by (simp add: gc)
qed

text \<open>
  Claim C9 (\<open>seededShuffle\<close> is a pure permutation), in the form the code satisfies. Let
  the seed be a finite number such that no product \<open>(seed + m) * 9999\<close>, for \<open>m\<close> from 1
  to the length of the array, overflows, and let \<open>Math.sin\<close> have its values between -1
  and 1. Then \<open>seededShuffle\<close> returns an array of defined elements, the one the model of
  the stages computes: it has the elements of the argument, each as often as the
  argument has it, and the same length, and the copy of the deliberative stage computes
  the same. For every seed, in range or not, the result is a new array on the heap and
  every array that existed before, the argument among them, is unchanged. Hence for
  every question whose identifier and its successor are seeds in range for arrays of
  length 3, the group of \<open>diverse_info\<close> has three members whose models and information
  labels are the two arrays that \<open>seededShuffle\<close> returns: each of the three models once
  and each of \<open>info1\<close>, \<open>info2\<close>, \<open>info3\<close> once.
\<close>

theorem seededShuffle_permutation:
  "(seedInRange (length array) seed \<and> (\<forall>y. \<bar>msin y\<bar> \<le> 1)
     \<longrightarrow> seededShuffle_js msin (map Some array) (Finite seed)
           = map Some (seededShuffle_ind msin array seed)
         \<and> mset (seededShuffle_ind msin array seed) = mset array
         \<and> length (seededShuffle_ind msin array seed) = length array
         \<and> seededShuffle_del msin array seed = seededShuffle_ind msin array seed)
   \<and> (case seededShuffle_heap msin h a anySeed of (h', result) \<Rightarrow>
        result = length h \<and> length h' = Suc (length h) \<and> take (length h) h' = h
        \<and> elements (h' ! result) = seededShuffle_js msin (elements (h ! a)) anySeed)
   \<and> (seedInRange 3 (of_int questionId) \<and> seedInRange 3 (of_int questionId + 1)
        \<and> (\<forall>y. \<bar>msin y\<bar> \<le> 1)
     \<longrightarrow> (\<exists>gc. getGroupComposition msin ''diverse_info'' questionId questionIndex = Inr gc
            \<and> length gc = 3
            \<and> map (\<lambda>s. Some (model s)) gc
                = seededShuffle_js msin (map Some MODELS) (jsAdd (Finite (of_int questionId)) (Finite 1))
            \<and> map (\<lambda>s. Some (infoLabel s)) gc
                = seededShuffle_js msin (map Some [''info1'', ''info2'', ''info3''])
                    (Finite (of_int questionId))
            \<and> mset (map model gc) = mset MODELS
            \<and> mset (map infoLabel gc) = mset [''info1'', ''info2'', ''info3'']))"
proof (intro conjI impI)
  assume a: "seedInRange (length array) seed \<and> (\<forall>y. \<bar>msin y\<bar> \<le> 1)"
  then show "seededShuffle_js msin (map Some array) (Finite seed)
           = map Some (seededShuffle_ind msin array seed)"
    using seededShuffle_js_in_range by blast
  show "mset (seededShuffle_ind msin array seed) = mset array" by (rule seededShuffle_ind_mset)
  show "length (seededShuffle_ind msin array seed) = length array" by (rule seededShuffle_ind_length)
  show "seededShuffle_del msin array seed = seededShuffle_ind msin array seed"
    by (rule seededShuffle_del_eq)
next
  obtain h' result where s: "seededShuffle_heap msin h a anySeed = (h', result)"
    by (cases "seededShuffle_heap msin h a anySeed") auto
  note c = seededShuffle_heap_correct[OF s]
  show "case seededShuffle_heap msin h a anySeed of (h', result) \<Rightarrow>
        result = length h \<and> length h' = Suc (length h) \<and> take (length h) h' = h
        \<and> elements (h' ! result) = seededShuffle_js msin (elements (h ! a)) anySeed"
    using c by (simp add: s)
next
  assume a: "seedInRange 3 (of_int questionId) \<and> seedInRange 3 (of_int questionId + 1)
        \<and> (\<forall>y. \<bar>msin y\<bar> \<le> 1)"
  then have r0: "seedInRange 3 (of_int questionId)" and r1: "seedInRange 3 (of_int questionId + 1)"
    and sb: "\<forall>y. \<bar>msin y\<bar> \<le> 1" by simp_all
  obtain gc where g: "getGroupComposition msin ''diverse_info'' questionId questionIndex = Inr gc"
    by (simp add: getGroupComposition_def Let_def)
  note sh = diverse_info_shuffles[OF g]
  have "\<bar>real_of_int questionId + real (Suc 0)\<bar> < OVERFLOW_THRESHOLD"
    by (rule seedInRange_step(1)[OF r0]) simp
  then have add: "jsAdd (Finite (of_int questionId)) (Finite 1) = Finite (of_int questionId + 1)"
    by (simp add: fromExact_Finite)
  have lm: "length MODELS = 3" by (simp add: MODELS_def)
  have r1': "seedInRange (length MODELS) (of_int questionId + 1)" using r1 lm by simp
  have js: "seededShuffle_js msin (map Some MODELS) (Finite (of_int questionId + 1))
        = map Some (seededShuffle_ind msin MODELS (of_int questionId + 1))"
    by (rule seededShuffle_js_in_range[OF r1' sb])
  have m: "map (\<lambda>s. Some (model s)) gc
        = seededShuffle_js msin (map Some MODELS) (jsAdd (Finite (of_int questionId)) (Finite 1))"
    unfolding add js sh(1)[symmetric] by simp
  have r0': "seedInRange (length [''info1'', ''info2'', ''info3'']) (of_int questionId)"
    using r0 by (simp add: numeral_3_eq_3)
  have jl: "seededShuffle_js msin (map Some [''info1'', ''info2'', ''info3'']) (Finite (of_int questionId))
        = map Some (seededShuffle_ind msin [''info1'', ''info2'', ''info3''] (of_int questionId))"
    by (rule seededShuffle_js_in_range[OF r0' sb])
  have l: "map (\<lambda>s. Some (infoLabel s)) gc
        = seededShuffle_js msin (map Some [''info1'', ''info2'', ''info3'']) (Finite (of_int questionId))"
    unfolding jl sh(2)[symmetric] by simp
  show "\<exists>gc. getGroupComposition msin ''diverse_info'' questionId questionIndex = Inr gc
            \<and> length gc = 3
            \<and> map (\<lambda>s. Some (model s)) gc
                = seededShuffle_js msin (map Some MODELS) (jsAdd (Finite (of_int questionId)) (Finite 1))
            \<and> map (\<lambda>s. Some (infoLabel s)) gc
                = seededShuffle_js msin (map Some [''info1'', ''info2'', ''info3''])
                    (Finite (of_int questionId))
            \<and> mset (map model gc) = mset MODELS
            \<and> mset (map infoLabel gc) = mset [''info1'', ''info2'', ''info3'']"
    using g sh(3) m l diverse_info_composition[OF g] by (intro exI[of _ gc]) simp
qed

lemma seedInRange_small:
  assumes "(\<bar>s\<bar> + real n) * 9999 < OVERFLOW_THRESHOLD"
  shows "seedInRange n s"
  unfolding seedInRange_def
proof (intro conjI ballI)
  have "real n \<le> (\<bar>s\<bar> + real n) * 9999" by simp
  with assms show "real n < OVERFLOW_THRESHOLD" by linarith
  fix m assume "m \<in> {1 .. n}"
  then have "real m \<le> real n" by simp
  then have "\<bar>s + real m\<bar> \<le> \<bar>s\<bar> + real n" by linarith
  then have "\<bar>(s + real m) * 9999\<bar> \<le> (\<bar>s\<bar> + real n) * 9999" by (simp add: abs_mult)
  with assms show "\<bar>(s + real m) * 9999\<bar> < OVERFLOW_THRESHOLD" by linarith
qed

lemma threshold_bounds:
  "(10::real) ^ 6 < OVERFLOW_THRESHOLD"
  "(10 ^ 308 + 3 :: real) < OVERFLOW_THRESHOLD"
  "OVERFLOW_THRESHOLD \<le> (10 ^ 308 + 1) * 9999"
  by (simp_all add: OVERFLOW_THRESHOLD_def)

lemma msinZero_fun: "msinZero = (\<lambda>_. 0)"
  by (simp add: fun_eq_iff msinZero_def)

theorem seededShuffle_permutation_witness:
  "seededShuffle_js msinZero (map Some MODELS) (Finite 7) = [Some ''sonnet'', Some ''gpt5'', Some ''pro'']
   \<and> mset (seededShuffle_ind msinZero MODELS 7) = mset MODELS
   \<and> (\<exists>gc. getGroupComposition msinZero ''diverse_info'' 7 0 = Inr gc
        \<and> map (\<lambda>s. Some (model s)) gc = seededShuffle_js msinZero (map Some MODELS) (Finite 8)
        \<and> mset (map model gc) = mset MODELS
        \<and> mset (map infoLabel gc) = mset [''info1'', ''info2'', ''info3''])"
proof -
  have sb: "\<forall>y. \<bar>msinZero y\<bar> \<le> 1" by (simp add: msinZero_def)
  have r7: "seedInRange 3 7" "seedInRange 3 (7 + 1)"
    using threshold_bounds(1) by (auto intro!: seedInRange_small)
  have h1: "seedInRange (length MODELS) 7 \<and> (\<forall>y. \<bar>msinZero y\<bar> \<le> 1)"
    using r7(1) sb by (simp add: MODELS_def numeral_3_eq_3)
  have h3: "seedInRange 3 (of_int 7) \<and> seedInRange 3 (of_int 7 + 1) \<and> (\<forall>y. \<bar>msinZero y\<bar> \<le> 1)"
    using r7 sb by simp
  note t = seededShuffle_permutation[where array=MODELS and seed=7 and msin=msinZero
      and questionId=7 and questionIndex=0]
  note a = t[THEN conjunct1, THEN mp, OF h1]
  note c = t[THEN conjunct2, THEN conjunct2, THEN mp, OF h3]
  have "seededShuffle_ind msinZero MODELS 7 = [''sonnet'', ''gpt5'', ''pro'']"
    unfolding msinZero_fun MODELS_def by (rule shuffle_zero)
  with a have 1: "seededShuffle_js msinZero (map Some MODELS) (Finite 7)
      = [Some ''sonnet'', Some ''gpt5'', Some ''pro'']" by simp
  have "\<bar>(7::real) + 1\<bar> < OVERFLOW_THRESHOLD" using threshold_bounds(1) by simp
  then have add: "jsAdd (Finite (of_int 7)) (Finite 1) = Finite 8" by (simp add: fromExact_Finite)
  from c obtain gc where g: "getGroupComposition msinZero ''diverse_info'' 7 0 = Inr gc"
    "map (\<lambda>s. Some (model s)) gc
       = seededShuffle_js msinZero (map Some MODELS) (jsAdd (Finite (of_int 7)) (Finite 1))"
    "mset (map model gc) = mset MODELS"
    "mset (map infoLabel gc) = mset [''info1'', ''info2'', ''info3'']"
    by blast
  have 3: "\<exists>gc. getGroupComposition msinZero ''diverse_info'' 7 0 = Inr gc
        \<and> map (\<lambda>s. Some (model s)) gc = seededShuffle_js msinZero (map Some MODELS) (Finite 8)
        \<and> mset (map model gc) = mset MODELS
        \<and> mset (map infoLabel gc) = mset [''info1'', ''info2'', ''info3'']"
    using g unfolding add by blast
  from 1 a 3 show ?thesis by blast
qed

lemma shuffle_index_overflow:
  assumes "\<bar>s + real (Suc m)\<bar> < OVERFLOW_THRESHOLD" "OVERFLOW_THRESHOLD \<le> (s + real (Suc m)) * 9999"
  shows "jsFloor (jsMul (seededRandom_js msin (jsAdd (Finite s) (Finite (real (Suc m)))))
                    (Finite (real (Suc m)))) = NaN"
proof -
  have 1: "jsAdd (Finite s) (Finite (real (Suc m))) = Finite (s + real (Suc m))"
    using assms(1) by (simp add: fromExact_Finite)
  have 2: "fromExact ((s + real (Suc m)) * 9999) = PosInfinity"
    using assms(2) by (simp add: fromExact_def)
  have 3: "seededRandom_js msin (Finite (s + real (Suc m))) = NaN"
    by (simp only: seededRandom_js_def Let_def 2 jsSin.simps jsMul.simps jsFloor.simps jsSub_def
        jsNeg.simps jsAdd.simps)
  show ?thesis by (simp only: 1 3 jsMul.simps jsFloor.simps)
qed

text \<open>
  At the finite seed \<open>10\<^sup>3\<^sup>0\<^sup>8\<close> the product \<open>seed * 9999\<close> overflows, \<open>Math.sin\<close> of the
  infinity is \<open>NaN\<close>, and so is the index of every swap: the result of
  \<open>seededShuffle(['a', 'b', 'c'], 1e308)\<close> is \<open>['b', 'c', undefined]\<close>, which is not a
  permutation of the argument.
\<close>

theorem seededShuffle_permutation_counterexample:
  "seededShuffle_js msinZero [Some ''a'', Some ''b'', Some ''c''] (Finite (10 ^ 308))
     = [Some ''b'', Some ''c'', None]"
proof -
  have i: "\<And>m. m < 3 \<Longrightarrow>
      jsFloor (jsMul (seededRandom_js msinZero (jsAdd (Finite (10 ^ 308)) (Finite (real (Suc m)))))
                 (Finite (real (Suc m)))) = NaN"
  proof -
    fix m :: nat assume m: "m < 3"
    have a: "\<bar>(10 ^ 308 :: real) + real (Suc m)\<bar> < OVERFLOW_THRESHOLD"
      using threshold_bounds(2) m by simp
    have "(10 ^ 308 + 1 :: real) * 9999 \<le> (10 ^ 308 + real (Suc m)) * 9999" by simp
    with threshold_bounds(3) have b: "OVERFLOW_THRESHOLD \<le> (10 ^ 308 + real (Suc m)) * 9999"
      by linarith
    show "jsFloor (jsMul (seededRandom_js msinZero (jsAdd (Finite (10 ^ 308)) (Finite (real (Suc m)))))
                 (Finite (real (Suc m)))) = NaN"
      by (rule shuffle_index_overflow[OF a b])
  qed
  have s: "\<And>m arr. m < 3 \<Longrightarrow> shuffleStep msinZero (Finite (10 ^ 308)) m arr
      = setProp (setProp arr (Finite (real m)) (getProp arr NaN)) NaN (getProp arr (Finite (real m)))"
    by (simp only: shuffleStep_def i Let_def)
  have l: "length [Some ''a'', Some ''b'', Some ''c''] = Suc (Suc (Suc 0))" by simp
  have lt: "Suc (Suc 0) < 3" "Suc 0 < 3" "(0::nat) < 3" by simp_all
  show ?thesis
    unfolding seededShuffle_js_def l seededShuffle_js_loop.simps s[OF lt(1)] s[OF lt(2)] s[OF lt(3)]
    by (simp add: getProp_def setProp_def indexOf_def)
qed

section \<open>The retry bound\<close>

text \<open>
  Claim C2 (retry bound), as the code has it. When every attempt of every pending task
  of a question fails, \<open>processQuestion\<close> of either stage calls the service for each task
  in the first round and in exactly two retry rounds, three attempts in all
  (\<open>MAX_RETRIES_PER_QUESTION = 3\<close> bounds the rounds, the first one included), and then
  reports every task as a persistent failure.
\<close>

theorem retry_rounds_all_fail:
  "(reqs \<noteq> []
      \<and> (\<forall>req \<in> set reqs. independentFiles w (independentForecastId q req) = None
            \<and> (\<exists>info. getInformation q (infoLabel req) = Inr info)
            \<and> (\<forall>n info. \<exists>msg. agentI n q info (model req) (infoLabel req) (instanceNo req) = Inl msg))
    \<longrightarrow> processQuestion_ind agentI q k reqs w =
          Inr (\<lparr>results = map (\<lambda>req. persistentFailureOf (independentForecastId q req)) reqs,
                 persistentFailures = length reqs\<rparr>,
               w\<lparr>calls := calls w @ map (independentCallOf q) reqs
                    @ concat (replicate 2 (map (independentCallOf q) reqs))\<rparr>))
   \<and> (collectTasks msin w q k CONDITIONS [] 0 = Inr (ts, sk) \<and> ts \<noteq> []
      \<and> (\<forall>t \<in> set ts. deliberativeFiles w (t_forecastId t) = None)
      \<and> (\<forall>n info own others m c p. \<exists>msg. agentD n q info own others m c p = Inl msg)
    \<longrightarrow> processQuestion_del msin agentD q k w =
          Inr (\<lparr>results = map (\<lambda>t. persistentFailureOf (t_forecastId t)) ts,
                 persistentFailures = length ts, skipped = sk\<rparr>,
               w\<lparr>calls := calls w @ map deliberativeCallOf ts
                    @ concat (replicate 2 (map deliberativeCallOf ts))\<rparr>))
   \<and> MAX_RETRIES_PER_QUESTION = 3"
proof (intro conjI impI)
  have r3: "\<And>xs::call list. concat (replicate MAX_RETRIES_PER_QUESTION xs) = xs @ concat (replicate 2 xs)"
    by (simp add: MAX_RETRIES_PER_QUESTION_def numeral_3_eq_3 numeral_2_eq_2)
  show "MAX_RETRIES_PER_QUESTION = 3" by (simp add: MAX_RETRIES_PER_QUESTION_def)
  {
    assume a: "reqs \<noteq> []
      \<and> (\<forall>req \<in> set reqs. independentFiles w (independentForecastId q req) = None
            \<and> (\<exists>info. getInformation q (infoLabel req) = Inr info)
            \<and> (\<forall>n info. \<exists>msg. agentI n q info (model req) (infoLabel req) (instanceNo req) = Inl msg))"
    then have "processQuestion_ind agentI q k reqs w =
     Inr (\<lparr>results = map (\<lambda>req. persistentFailureOf (independentForecastId q req)) reqs,
            persistentFailures = length reqs\<rparr>,
          w\<lparr>calls := calls w @ concat (replicate MAX_RETRIES_PER_QUESTION (map (independentCallOf q) reqs))\<rparr>)"
      by (intro processQuestion_ind_all_fail) auto
    then show "processQuestion_ind agentI q k reqs w =
          Inr (\<lparr>results = map (\<lambda>req. persistentFailureOf (independentForecastId q req)) reqs,
                 persistentFailures = length reqs\<rparr>,
               w\<lparr>calls := calls w @ map (independentCallOf q) reqs
                    @ concat (replicate 2 (map (independentCallOf q) reqs))\<rparr>)"
      by (simp only: r3)
  }
  {
    assume a: "collectTasks msin w q k CONDITIONS [] 0 = Inr (ts, sk) \<and> ts \<noteq> []
      \<and> (\<forall>t \<in> set ts. deliberativeFiles w (t_forecastId t) = None)
      \<and> (\<forall>n info own others m c p. \<exists>msg. agentD n q info own others m c p = Inl msg)"
    then have "processQuestion_del msin agentD q k w =
     Inr (\<lparr>results = map (\<lambda>t. persistentFailureOf (t_forecastId t)) ts,
            persistentFailures = length ts, skipped = sk\<rparr>,
          w\<lparr>calls := calls w @ concat (replicate MAX_RETRIES_PER_QUESTION (map deliberativeCallOf ts))\<rparr>)"
      by (intro processQuestion_del_all_fail) auto
    then show "processQuestion_del msin agentD q k w =
          Inr (\<lparr>results = map (\<lambda>t. persistentFailureOf (t_forecastId t)) ts,
                 persistentFailures = length ts, skipped = sk\<rparr>,
               w\<lparr>calls := calls w @ map deliberativeCallOf ts
                    @ concat (replicate 2 (map deliberativeCallOf ts))\<rparr>)"
      by (simp only: r3)
  }
qed

lemma ex_tasks_ids:
  "map t_forecastId (tasksFor (\<lambda>_. 0) diverseFullWorld exampleQuestion 0 ''diverse_full'')
     = [''7-diverse_full-pro-1'', ''7-diverse_full-sonnet-2'', ''7-diverse_full-gpt5-3'']"
  by (simp add: tasksFor_def taskFor_def groupOf_def getGroupComposition_def exampleQuestion_def
      numberToString_7 numberToString_small Let_def)

lemma ex_tasks_calls:
  "map deliberativeCallOf (tasksFor (\<lambda>_. 0) diverseFullWorld exampleQuestion 0 ''diverse_full'')
     = [DeliberativeCall 7 ''diverse_full'' ''pro'' 1, DeliberativeCall 7 ''diverse_full'' ''sonnet'' 2,
        DeliberativeCall 7 ''diverse_full'' ''gpt5'' 3]"
  by (simp add: tasksFor_def taskFor_def groupOf_def getGroupComposition_def exampleQuestion_def
      deliberativeCallOf_def Let_def)

theorem retry_rounds_all_fail_witness:
  "processQuestion_ind failingIndependentAgent exampleQuestion 0
      [\<lparr>model = ''pro'', infoLabel = ''full'', instanceNo = None\<rparr>] emptyWorld
    = Inr (\<lparr>results = [\<lparr>status = PersistentFailure, forecastId = ''7-pro-full'', errorMessage = None\<rparr>],
             persistentFailures = 1\<rparr>,
           emptyWorld\<lparr>calls := [IndependentCall 7 ''pro'' ''full'' None,
                                IndependentCall 7 ''pro'' ''full'' None,
                                IndependentCall 7 ''pro'' ''full'' None]\<rparr>)
   \<and> processQuestion_del (\<lambda>_. 0) failingDeliberativeAgent exampleQuestion 0 diverseFullWorld
    = Inr (\<lparr>results = [\<lparr>status = PersistentFailure, forecastId = ''7-diverse_full-pro-1'', errorMessage = None\<rparr>,
                        \<lparr>status = PersistentFailure, forecastId = ''7-diverse_full-sonnet-2'', errorMessage = None\<rparr>,
                        \<lparr>status = PersistentFailure, forecastId = ''7-diverse_full-gpt5-3'', errorMessage = None\<rparr>],
             persistentFailures = 3, skipped = 15\<rparr>,
           diverseFullWorld\<lparr>calls :=
             [DeliberativeCall 7 ''diverse_full'' ''pro'' 1, DeliberativeCall 7 ''diverse_full'' ''sonnet'' 2,
              DeliberativeCall 7 ''diverse_full'' ''gpt5'' 3,
              DeliberativeCall 7 ''diverse_full'' ''pro'' 1, DeliberativeCall 7 ''diverse_full'' ''sonnet'' 2,
              DeliberativeCall 7 ''diverse_full'' ''gpt5'' 3,
              DeliberativeCall 7 ''diverse_full'' ''pro'' 1, DeliberativeCall 7 ''diverse_full'' ''sonnet'' 2,
              DeliberativeCall 7 ''diverse_full'' ''gpt5'' 3]\<rparr>)"
proof
  have h1: "independentForecastId exampleQuestion \<lparr>model = ''pro'', infoLabel = ''full'', instanceNo = None\<rparr>
      = ''7-pro-full''"
    by (simp add: independentForecastId_def exampleQuestion_def numberToString_7 instanceSuffix_def)
  from retry_rounds_all_fail[of "[\<lparr>model = ''pro'', infoLabel = ''full'', instanceNo = None\<rparr>]" emptyWorld
      exampleQuestion failingIndependentAgent 0 "\<lambda>_. 0" "[]" 0 failingDeliberativeAgent]
  show "processQuestion_ind failingIndependentAgent exampleQuestion 0
      [\<lparr>model = ''pro'', infoLabel = ''full'', instanceNo = None\<rparr>] emptyWorld
    = Inr (\<lparr>results = [\<lparr>status = PersistentFailure, forecastId = ''7-pro-full'', errorMessage = None\<rparr>],
             persistentFailures = 1\<rparr>,
           emptyWorld\<lparr>calls := [IndependentCall 7 ''pro'' ''full'' None,
                                IndependentCall 7 ''pro'' ''full'' None,
                                IndependentCall 7 ''pro'' ''full'' None]\<rparr>)"
    by (simp add: h1[unfolded exampleQuestion_def] emptyWorld_def getInformation_def
        failingIndependentAgent_def persistentFailureOf_def independentCallOf_def exampleQuestion_def
        numeral_2_eq_2)
  let ?ts = "tasksFor (\<lambda>_. 0) diverseFullWorld exampleQuestion 0 ''diverse_full''"
  have ne: "?ts \<noteq> []" by (simp add: tasksFor_def)
  have absent: "\<forall>t \<in> set ?ts. deliberativeFiles diverseFullWorld (t_forecastId t) = None"
    by (simp add: diverseFullWorld_def)
  have fails: "\<forall>n info own others m c p. \<exists>msg.
      failingDeliberativeAgent n exampleQuestion info own others m c p = Inl msg"
    by (simp add: failingDeliberativeAgent_def)
  from retry_rounds_all_fail[of "[]" diverseFullWorld exampleQuestion failingIndependentAgent 0
      "\<lambda>_. 0" ?ts 15 failingDeliberativeAgent] ex_collect ne absent fails
  have "processQuestion_del (\<lambda>_. 0) failingDeliberativeAgent exampleQuestion 0 diverseFullWorld =
          Inr (\<lparr>results = map (\<lambda>t. persistentFailureOf (t_forecastId t)) ?ts,
                 persistentFailures = length ?ts, skipped = 15\<rparr>,
               diverseFullWorld\<lparr>calls := calls diverseFullWorld @ map deliberativeCallOf ?ts
                    @ concat (replicate 2 (map deliberativeCallOf ?ts))\<rparr>)"
    by blast
  moreover have "map (\<lambda>t. persistentFailureOf (t_forecastId t)) ?ts
      = map persistentFailureOf (map t_forecastId ?ts)" by simp
  moreover have "length ?ts = 3" by (simp add: tasksFor_def)
  moreover have "calls diverseFullWorld = []" by (simp add: diverseFullWorld_def)
  ultimately show "processQuestion_del (\<lambda>_. 0) failingDeliberativeAgent exampleQuestion 0 diverseFullWorld
    = Inr (\<lparr>results = [\<lparr>status = PersistentFailure, forecastId = ''7-diverse_full-pro-1'', errorMessage = None\<rparr>,
                        \<lparr>status = PersistentFailure, forecastId = ''7-diverse_full-sonnet-2'', errorMessage = None\<rparr>,
                        \<lparr>status = PersistentFailure, forecastId = ''7-diverse_full-gpt5-3'', errorMessage = None\<rparr>],
             persistentFailures = 3, skipped = 15\<rparr>,
           diverseFullWorld\<lparr>calls :=
             [DeliberativeCall 7 ''diverse_full'' ''pro'' 1, DeliberativeCall 7 ''diverse_full'' ''sonnet'' 2,
              DeliberativeCall 7 ''diverse_full'' ''gpt5'' 3,
              DeliberativeCall 7 ''diverse_full'' ''pro'' 1, DeliberativeCall 7 ''diverse_full'' ''sonnet'' 2,
              DeliberativeCall 7 ''diverse_full'' ''gpt5'' 3,
              DeliberativeCall 7 ''diverse_full'' ''pro'' 1, DeliberativeCall 7 ''diverse_full'' ''sonnet'' 2,
              DeliberativeCall 7 ''diverse_full'' ''gpt5'' 3]\<rparr>)"
    by (simp only: ex_tasks_ids ex_tasks_calls) (simp add: persistentFailureOf_def numeral_2_eq_2)
qed

section \<open>Executing one task\<close>

lemma generateSingleForecast_cases:
  assumes "generateSingleForecast agent q req w = Inr (r, w')"
  shows "forecastId r = independentForecastId q req \<and>
    ((status r = Cached \<and> w' = w \<and> independentFiles w (independentForecastId q req) \<noteq> None)
     \<or> (status r = Error \<and> w' = w\<lparr>calls := calls w @ [independentCallOf q req]\<rparr>
          \<and> independentFiles w (independentForecastId q req) = None
          \<and> (\<exists>info. getInformation q (infoLabel req) = Inr info))
     \<or> (status r = Success \<and> independentFiles w (independentForecastId q req) = None
          \<and> (\<exists>res. w' = w\<lparr>calls := calls w @ [independentCallOf q req],
                   independentFiles := (independentFiles w)(independentForecastId q req \<mapsto> res)\<rparr>)))"
  using assms
  by (auto simp: generateSingleForecast_def independentCallOf_def Let_def
      split: if_splits sum.splits)

lemma generateSingleDeliberativeForecast_cases:
  assumes "generateSingleDeliberativeForecast agent q c gc ifs p w = Inr (r, w')"
  shows "\<exists>a. jsIndex gc (int p - 1) = Some a \<and>
    deliberativeForecastId q c gc p = Inr (forecastId r) \<and>
    ((status r = Cached \<and> w' = w \<and> deliberativeFiles w (forecastId r) \<noteq> None)
     \<or> (status r = Error \<and> w' = w\<lparr>calls := calls w @ [DeliberativeCall (qid q) c (model a) p]\<rparr>
          \<and> deliberativeFiles w (forecastId r) = None)
     \<or> (status r = Success \<and> deliberativeFiles w (forecastId r) = None
          \<and> (\<exists>res. w' = w\<lparr>calls := calls w @ [DeliberativeCall (qid q) c (model a) p],
                   deliberativeFiles := (deliberativeFiles w)(forecastId r \<mapsto> res)\<rparr>)))"
  using assms
  by (auto simp: generateSingleDeliberativeForecast_def deliberativeForecastId_def Let_def
      split: if_splits sum.splits option.splits)

lemma generateSingleForecast_rerun_calls:
  assumes "independentFiles w (independentForecastId q req) = None"
    and "getInformation q (infoLabel req) = Inr info"
  shows "\<exists>r2 w2. generateSingleForecast agent2 q req w = Inr (r2, w2)
           \<and> calls w2 = calls w @ [independentCallOf q req]"
  using assms
  by (auto simp: generateSingleForecast_def independentCallOf_def Let_def split: sum.splits)

lemma generateSingleDeliberativeForecast_rerun_calls:
  assumes "jsIndex gc (int p - 1) = Some a"
    and "deliberativeForecastId q c gc p = Inr fid"
    and "deliberativeFiles w fid = None"
  shows "\<exists>r2 w2. generateSingleDeliberativeForecast agent2 q c gc ifs p w = Inr (r2, w2)
           \<and> calls w2 = calls w @ [DeliberativeCall (qid q) c (model a) p]"
  using assms
  by (auto simp: generateSingleDeliberativeForecast_def deliberativeForecastId_def Let_def
      split: sum.splits)

text \<open>
  Claim C10 (store unchanged on error). For every execution of a task in either stage:
  the result carries the task's identifier; a file is written exactly when the status is
  \<open>success\<close>, and the other directory is never touched; the status is \<open>error\<close> exactly when
  the task's file is absent afterwards. After an error a new execution calls the service
  again, and after any other status it answers \<open>cached\<close> without a call or a write. When
  the file is absent and the agent throws, the execution returns \<open>error\<close> with the
  identifier and the message, and the world differs only by the log entry of the call.
\<close>

theorem store_unchanged_on_error:
  "(generateSingleForecast agentI q req w = Inr (r, w') \<longrightarrow>
      forecastId r = independentForecastId q req
      \<and> (status r = Error \<or> status r = Success \<or> status r = Cached)
      \<and> (status r = Success) = (independentFiles w' \<noteq> independentFiles w)
      \<and> deliberativeFiles w' = deliberativeFiles w
      \<and> (status r = Error) = (independentFiles w' (independentForecastId q req) = None)
      \<and> (status r = Error \<longrightarrow>
            (\<forall>agent2. \<exists>r2 w2. generateSingleForecast agent2 q req w' = Inr (r2, w2)
                \<and> calls w2 = calls w' @ [independentCallOf q req]))
      \<and> (status r \<noteq> Error \<longrightarrow>
            (\<forall>agent2. generateSingleForecast agent2 q req w' =
                Inr (\<lparr>status = Cached, forecastId = independentForecastId q req, errorMessage = None\<rparr>, w'))))
   \<and> (independentFiles w (independentForecastId q req) = None
        \<and> getInformation q (infoLabel req) = Inr info
        \<and> agentI (length (calls w)) q info (model req) (infoLabel req) (instanceNo req) = Inl msg \<longrightarrow>
      generateSingleForecast agentI q req w =
        Inr (\<lparr>status = Error, forecastId = independentForecastId q req, errorMessage = Some msg\<rparr>,
             w\<lparr>calls := calls w @ [independentCallOf q req]\<rparr>))
   \<and> (generateSingleDeliberativeForecast agentD q c gc ifs p w = Inr (rd, wd) \<longrightarrow>
      deliberativeForecastId q c gc p = Inr (forecastId rd)
      \<and> (status rd = Error \<or> status rd = Success \<or> status rd = Cached)
      \<and> (status rd = Success) = (deliberativeFiles wd \<noteq> deliberativeFiles w)
      \<and> independentFiles wd = independentFiles w
      \<and> (status rd = Error) = (deliberativeFiles wd (forecastId rd) = None)
      \<and> (status rd = Error \<longrightarrow>
            (\<forall>agent2. \<exists>r2 w2. generateSingleDeliberativeForecast agent2 q c gc ifs p wd = Inr (r2, w2)
                \<and> length (calls w2) = Suc (length (calls wd))))
      \<and> (status rd \<noteq> Error \<longrightarrow>
            (\<forall>agent2. generateSingleDeliberativeForecast agent2 q c gc ifs p wd =
                Inr (\<lparr>status = Cached, forecastId = forecastId rd, errorMessage = None\<rparr>, wd))))
   \<and> (jsIndex gc (int p - 1) = Some a \<and> deliberativeForecastId q c gc p = Inr fid
        \<and> deliberativeFiles w fid = None
        \<and> agentD (length (calls w)) q (deliberativeInformation q a)
             (case jsIndex ifs (int p - 1) of None \<Rightarrow> None | Some f \<Rightarrow> f)
             (map snd (filter (\<lambda>(i, f). int i \<noteq> int p - 1) (enumerate 0 ifs)))
             (model a) c p = Inl msg \<longrightarrow>
      generateSingleDeliberativeForecast agentD q c gc ifs p w =
        Inr (\<lparr>status = Error, forecastId = fid, errorMessage = Some msg\<rparr>,
             w\<lparr>calls := calls w @ [DeliberativeCall (qid q) c (model a) p]\<rparr>))"
proof (intro conjI impI)
  assume a: "generateSingleForecast agentI q req w = Inr (r, w')"
  note c = generateSingleForecast_cases[OF a]
  let ?fid = "independentForecastId q req"
  show "forecastId r = ?fid" using c by simp
  show "status r = Error \<or> status r = Success \<or> status r = Cached" using c by auto
  show "(status r = Success) = (independentFiles w' \<noteq> independentFiles w)"
    using c by (auto dest: fun_cong[where x="?fid"])
  show "deliberativeFiles w' = deliberativeFiles w" using c by auto
  show "(status r = Error) = (independentFiles w' ?fid = None)" using c by auto
  {
    assume e: "status r = Error"
    then obtain info where "independentFiles w' ?fid = None" "getInformation q (infoLabel req) = Inr info"
      using c by auto
    then show "\<forall>agent2. \<exists>r2 w2. generateSingleForecast agent2 q req w' = Inr (r2, w2)
                \<and> calls w2 = calls w' @ [independentCallOf q req]"
      using generateSingleForecast_rerun_calls by blast
  }
  {
    assume "status r \<noteq> Error"
    then have "independentFiles w' ?fid \<noteq> None" using c by auto
    then show "\<forall>agent2. generateSingleForecast agent2 q req w' =
                Inr (\<lparr>status = Cached, forecastId = ?fid, errorMessage = None\<rparr>, w')"
      by (simp add: generateSingleForecast_def Let_def)
  }
next
  assume "independentFiles w (independentForecastId q req) = None
        \<and> getInformation q (infoLabel req) = Inr info
        \<and> agentI (length (calls w)) q info (model req) (infoLabel req) (instanceNo req) = Inl msg"
  then show "generateSingleForecast agentI q req w =
        Inr (\<lparr>status = Error, forecastId = independentForecastId q req, errorMessage = Some msg\<rparr>,
             w\<lparr>calls := calls w @ [independentCallOf q req]\<rparr>)"
    by (simp add: generateSingleForecast_fails)
next
  assume a: "generateSingleDeliberativeForecast agentD q c gc ifs p w = Inr (rd, wd)"
  from generateSingleDeliberativeForecast_cases[OF a] obtain a' where
    j: "jsIndex gc (int p - 1) = Some a'" and
    i: "deliberativeForecastId q c gc p = Inr (forecastId rd)" and
    c: "(status rd = Cached \<and> wd = w \<and> deliberativeFiles w (forecastId rd) \<noteq> None)
     \<or> (status rd = Error \<and> wd = w\<lparr>calls := calls w @ [DeliberativeCall (qid q) c (model a') p]\<rparr>
          \<and> deliberativeFiles w (forecastId rd) = None)
     \<or> (status rd = Success \<and> deliberativeFiles w (forecastId rd) = None
          \<and> (\<exists>res. wd = w\<lparr>calls := calls w @ [DeliberativeCall (qid q) c (model a') p],
                   deliberativeFiles := (deliberativeFiles w)(forecastId rd \<mapsto> res)\<rparr>))"
    by blast
  show "deliberativeForecastId q c gc p = Inr (forecastId rd)" by fact
  show "status rd = Error \<or> status rd = Success \<or> status rd = Cached" using c by auto
  show "(status rd = Success) = (deliberativeFiles wd \<noteq> deliberativeFiles w)"
    using c by (auto dest: fun_cong[where x="forecastId rd"])
  show "independentFiles wd = independentFiles w" using c by auto
  show "(status rd = Error) = (deliberativeFiles wd (forecastId rd) = None)" using c by auto
  {
    assume "status rd = Error"
    then have "deliberativeFiles wd (forecastId rd) = None" using c by auto
    from generateSingleDeliberativeForecast_rerun_calls[OF j i this]
    show "\<forall>agent2. \<exists>r2 w2. generateSingleDeliberativeForecast agent2 q c gc ifs p wd = Inr (r2, w2)
                \<and> length (calls w2) = Suc (length (calls wd))"
      by (metis length_append_singleton)
  }
  {
    assume "status rd \<noteq> Error"
    then have "deliberativeFiles wd (forecastId rd) \<noteq> None" using c by auto
    then show "\<forall>agent2. generateSingleDeliberativeForecast agent2 q c gc ifs p wd =
                Inr (\<lparr>status = Cached, forecastId = forecastId rd, errorMessage = None\<rparr>, wd)"
      using generateSingleDeliberativeForecast_cached[OF i] by blast
  }
next
  assume "jsIndex gc (int p - 1) = Some a \<and> deliberativeForecastId q c gc p = Inr fid
        \<and> deliberativeFiles w fid = None
        \<and> agentD (length (calls w)) q (deliberativeInformation q a)
             (case jsIndex ifs (int p - 1) of None \<Rightarrow> None | Some f \<Rightarrow> f)
             (map snd (filter (\<lambda>(i, f). int i \<noteq> int p - 1) (enumerate 0 ifs)))
             (model a) c p = Inl msg"
  then show "generateSingleDeliberativeForecast agentD q c gc ifs p w =
        Inr (\<lparr>status = Error, forecastId = fid, errorMessage = Some msg\<rparr>,
             w\<lparr>calls := calls w @ [DeliberativeCall (qid q) c (model a) p]\<rparr>)"
    using generateSingleDeliberativeForecast_fails[where agent=agentD and gc=gc and p=p and a=a
        and q=q and c=c and fid=fid and w=w and ifs=ifs and msg=msg] by blast
qed

theorem store_unchanged_on_error_witness:
  "generateSingleForecast failingIndependentAgent exampleQuestion
       \<lparr>model = ''pro'', infoLabel = ''full'', instanceNo = None\<rparr> emptyWorld
     = Inr (\<lparr>status = Error, forecastId = ''7-pro-full'', errorMessage = Some ''timeout''\<rparr>,
            emptyWorld\<lparr>calls := [IndependentCall 7 ''pro'' ''full'' None]\<rparr>)
   \<and> independentFiles (emptyWorld\<lparr>calls := [IndependentCall 7 ''pro'' ''full'' None]\<rparr>)
       = independentFiles emptyWorld
   \<and> (\<exists>r2 w2. generateSingleForecast failingIndependentAgent exampleQuestion
          \<lparr>model = ''pro'', infoLabel = ''full'', instanceNo = None\<rparr>
          (emptyWorld\<lparr>calls := [IndependentCall 7 ''pro'' ''full'' None]\<rparr>) = Inr (r2, w2)
        \<and> calls w2 = [IndependentCall 7 ''pro'' ''full'' None, IndependentCall 7 ''pro'' ''full'' None])
   \<and> generateSingleDeliberativeForecast failingDeliberativeAgent exampleQuestion ''diverse_full''
       exampleGroup [Some exampleIndependentResult, Some exampleIndependentResult,
                     Some exampleIndependentResult] 1 diverseFullWorld
     = Inr (\<lparr>status = Error, forecastId = ''7-diverse_full-pro-1'', errorMessage = Some ''timeout''\<rparr>,
            diverseFullWorld\<lparr>calls := [DeliberativeCall 7 ''diverse_full'' ''pro'' 1]\<rparr>)
   \<and> deliberativeFiles (diverseFullWorld\<lparr>calls := [DeliberativeCall 7 ''diverse_full'' ''pro'' 1]\<rparr>)
       = deliberativeFiles diverseFullWorld"
proof -
  let ?req = "\<lparr>model = ''pro'', infoLabel = ''full'', instanceNo = None\<rparr>"
  let ?r = "\<lparr>status = Error, forecastId = ''7-pro-full'', errorMessage = Some ''timeout''\<rparr>"
  let ?w1 = "emptyWorld\<lparr>calls := [IndependentCall 7 ''pro'' ''full'' None]\<rparr>"
  let ?ifs = "[Some exampleIndependentResult, Some exampleIndependentResult, Some exampleIndependentResult]"
  let ?rd = "\<lparr>status = Error, forecastId = ''7-diverse_full-pro-1'', errorMessage = Some ''timeout''\<rparr>"
  let ?wd = "diverseFullWorld\<lparr>calls := [DeliberativeCall 7 ''diverse_full'' ''pro'' 1]\<rparr>"
  have id1: "independentForecastId exampleQuestion ?req = ''7-pro-full''"
    by (simp add: independentForecastId_def exampleQuestion_def numberToString_7 instanceSuffix_def)
  have c1: "independentCallOf exampleQuestion ?req = IndependentCall 7 ''pro'' ''full'' None"
    by (simp add: independentCallOf_def exampleQuestion_def)
  have e1: "generateSingleForecast failingIndependentAgent exampleQuestion ?req emptyWorld = Inr (?r, ?w1)"
    by (simp add: generateSingleForecast_def id1[unfolded exampleQuestion_def] emptyWorld_def
        getInformation_def failingIndependentAgent_def exampleQuestion_def Let_def)
  have e2: "generateSingleDeliberativeForecast failingDeliberativeAgent exampleQuestion ''diverse_full''
       exampleGroup ?ifs 1 diverseFullWorld = Inr (?rd, ?wd)"
    by (simp add: generateSingleDeliberativeForecast_def exampleGroup_def jsIndex_def
        diverseFullWorld_def failingDeliberativeAgent_def exampleQuestion_def numberToString_7
        numberToString_small Let_def)
  note t = store_unchanged_on_error[where agentI=failingIndependentAgent and q=exampleQuestion
      and req="?req" and w=emptyWorld and r="?r" and w'="?w1"]
  note t1 = t[THEN conjunct1, THEN mp, OF e1]
  note a = t1[THEN conjunct2, THEN conjunct2, THEN conjunct1]
  note b = t1[THEN conjunct2, THEN conjunct2, THEN conjunct2, THEN conjunct2, THEN conjunct2,
      THEN conjunct1]
  from a have a': "independentFiles ?w1 = independentFiles emptyWorld" by simp
  from b have b': "\<exists>r2 w2. generateSingleForecast failingIndependentAgent exampleQuestion ?req ?w1 = Inr (r2, w2)
        \<and> calls w2 = [IndependentCall 7 ''pro'' ''full'' None, IndependentCall 7 ''pro'' ''full'' None]"
    by (simp add: c1 emptyWorld_def)
  show ?thesis using e1 e2 a' b' by (simp add: diverseFullWorld_def)
qed

section \<open>Runs on a populated store\<close>

text \<open>
  Claim C6 (cache idempotence). In either stage, a task whose result file exists returns
  \<open>cached\<close> with its identifier and leaves the world as it was: no call to the service, no
  write. Hence a run of a stage on a store that already holds the result of every task the
  stage would execute ends with exit status 0 and no failed question, in the world it
  started in: no forecasting call is made and every stored record is unchanged.
\<close>

theorem cache_idempotence:
  "(independentFiles w (independentForecastId q req) \<noteq> None \<longrightarrow>
      generateSingleForecast agentI q req w =
        Inr (\<lparr>status = Cached, forecastId = independentForecastId q req, errorMessage = None\<rparr>, w))
   \<and> (deliberativeForecastId q c gc p = Inr fid \<and> deliberativeFiles w fid \<noteq> None \<longrightarrow>
      generateSingleDeliberativeForecast agentD q c gc ifs p w =
        Inr (\<lparr>status = Cached, forecastId = fid, errorMessage = None\<rparr>, w))
   \<and> ((\<forall>k < length questions. \<forall>req \<in> set (getRequiredForecasts msin (qid (questions ! k)) k).
          independentFiles w (independentForecastId (questions ! k) req) \<noteq> None) \<longrightarrow>
      main_ind TEST_MODE msin agentI questions w =
        Inr \<lparr>exitStatus = 0, stopped = False, failedQuestions = [], finalWorld = w\<rparr>)
   \<and> ((\<forall>k < length questions. \<forall>ts sk.
          collectTasks msin w (questions ! k) k CONDITIONS [] 0 = Inr (ts, sk) \<longrightarrow>
          (\<forall>t \<in> set ts. deliberativeFiles w (t_forecastId t) \<noteq> None)) \<longrightarrow>
      main_del TEST_MODE msin agentD questions w =
        Inr \<lparr>exitStatus = 0, stopped = False, failedQuestions = [], finalWorld = w\<rparr>)"
  using generateSingleForecast_cached[of w q req agentI]
    generateSingleDeliberativeForecast_cached[of q c gc p fid w agentD ifs]
    main_ind_populated[of questions msin w TEST_MODE agentI]
    main_del_populated[of questions msin w TEST_MODE agentD]
  by blast

theorem cache_idempotence_witness:
  "generateSingleForecast failingIndependentAgent exampleQuestion
       \<lparr>model = ''pro'', infoLabel = ''full'', instanceNo = None\<rparr> diverseFullWorld
     = Inr (\<lparr>status = Cached, forecastId = ''7-pro-full'', errorMessage = None\<rparr>, diverseFullWorld)
   \<and> generateSingleDeliberativeForecast failingDeliberativeAgent exampleQuestion ''diverse_full''
       exampleGroup [] 1 fullWorld
     = Inr (\<lparr>status = Cached, forecastId = ''7-diverse_full-pro-1'', errorMessage = None\<rparr>, fullWorld)
   \<and> main_ind False (\<lambda>x. 0) failingIndependentAgent [exampleQuestion] fullWorld
     = Inr \<lparr>exitStatus = 0, stopped = False, failedQuestions = [], finalWorld = fullWorld\<rparr>
   \<and> main_del False (\<lambda>x. 0) failingDeliberativeAgent [exampleQuestion] fullWorld
     = Inr \<lparr>exitStatus = 0, stopped = False, failedQuestions = [], finalWorld = fullWorld\<rparr>"
proof -
  let ?req = "\<lparr>model = ''pro'', infoLabel = ''full'', instanceNo = None\<rparr>"
  have id1: "independentForecastId exampleQuestion ?req = ''7-pro-full''"
    by (simp add: independentForecastId_def exampleQuestion_def numberToString_7 instanceSuffix_def)
  have id2: "deliberativeForecastId exampleQuestion ''diverse_full'' exampleGroup 1
      = Inr ''7-diverse_full-pro-1''"
    by (simp add: deliberativeForecastId_def exampleGroup_def jsIndex_def exampleQuestion_def
        numberToString_7 numberToString_small)
  have h1: "independentFiles diverseFullWorld (independentForecastId exampleQuestion ?req) \<noteq> None"
    by (simp add: id1 diverseFullWorld_def)
  have h2: "deliberativeFiles fullWorld ''7-diverse_full-pro-1'' \<noteq> None"
    by (simp add: fullWorld_def)
  have h3: "\<forall>k < length [exampleQuestion].
        \<forall>req \<in> set (getRequiredForecasts (\<lambda>x. 0) (qid ([exampleQuestion] ! k)) k).
          independentFiles fullWorld (independentForecastId ([exampleQuestion] ! k) req) \<noteq> None"
    by (simp add: fullWorld_def)
  have h4: "\<forall>k < length [exampleQuestion]. \<forall>ts sk.
          collectTasks (\<lambda>x. 0) fullWorld ([exampleQuestion] ! k) k CONDITIONS [] 0 = Inr (ts, sk) \<longrightarrow>
          (\<forall>t \<in> set ts. deliberativeFiles fullWorld (t_forecastId t) \<noteq> None)"
    by (simp add: fullWorld_def)
  note t1 = cache_idempotence[where w=diverseFullWorld and q=exampleQuestion and req="?req"
      and agentI=failingIndependentAgent, THEN conjunct1, THEN mp, OF h1]
  note t = cache_idempotence[where w=fullWorld and q=exampleQuestion and c="''diverse_full''"
      and gc=exampleGroup and p=1 and fid="''7-diverse_full-pro-1''" and agentD=failingDeliberativeAgent
      and agentI=failingIndependentAgent and questions="[exampleQuestion]" and msin="\<lambda>x. 0"
      and TEST_MODE=False and ifs="[]"]
  note t2 = t[THEN conjunct2, THEN conjunct1, THEN mp, OF conjI[OF id2 h2]]
  note t3 = t[THEN conjunct2, THEN conjunct2, THEN conjunct1, THEN mp, OF h3]
  note t4 = t[THEN conjunct2, THEN conjunct2, THEN conjunct2, THEN mp, OF h4]
  show ?thesis using t1 t2 t3 t4 by (simp add: id1)
qed

section \<open>The batch loop and the tally\<close>

lemma tallyOf_simps [simp]:
  "tallyOf [] = []"
  "tallyOf ((r, q) # rs) = (if persistentFailures r > 0 then qid q # tallyOf rs else tallyOf rs)"
  "tallyOf (xs @ ys) = tallyOf xs @ tallyOf ys"
  by (simp_all add: tallyOf_def)











section \<open>Totality of the stages\<close>












section \<open>Runs of \<open>main\<close>\<close>








section \<open>Dependency integrity\<close>












section \<open>Exit status\<close>





section \<open>The circuit breaker\<close>




















section \<open>Properties of the dataset reducer\<close>

lemma independentMapOf_foldl:
  "foldl (\<lambda>m f. m(i_forecastId f \<mapsto> f)) m0 inds k = None
     \<longleftrightarrow> m0 k = None \<and> k \<notin> i_forecastId ` set inds"
  by (induction inds arbitrary: m0) auto

lemma independentMapOf_None:
  "independentMapOf inds k = None \<longleftrightarrow> k \<notin> i_forecastId ` set inds"
  by (simp add: independentMapOf_def independentMapOf_foldl)

lemma questionMapOf_foldl:
  "foldl (\<lambda>m q. m(qid q \<mapsto> \<lparr>e_id = qid q, e_title = questionTitle q,
                                  e_resolution = (if resolution q = ''yes'' then 1 else 0)\<rparr>))
       m0 qs k = None
     \<longleftrightarrow> m0 k = None \<and> k \<notin> qid ` set qs"
  by (induction qs arbitrary: m0) auto

lemma questionMapOf_None:
  "questionMapOf qs k = None \<longleftrightarrow> k \<notin> qid ` set qs"
  by (simp add: questionMapOf_def questionMapOf_foldl)

lemma pushToGroup_members:
  "(\<Union>x \<in> set (pushToGroup key f groups). set (snd x)) = insert f (\<Union>x \<in> set groups. set (snd x))"
proof (induction key f groups rule: pushToGroup.induct)
  case (1 key f)
  then show ?case by simp
next
  case (2 key f k g rest)
  show ?case
  proof (cases "k = key")
    case True
    then show ?thesis by auto
  next
    case False
    then show ?thesis using 2 by simp
  qed
qed

lemma deliberativeByQC_foldl:
  "(\<Union>x \<in> set (foldl (\<lambda>groups f. pushToGroup (numberToString (d_questionId f) @ ''-'' @ d_condition f) f groups)
        g0 dels). set (snd x))
     = (\<Union>x \<in> set g0. set (snd x)) \<union> set dels"
  by (induction dels arbitrary: g0) (auto simp: pushToGroup_members)

lemma deliberativeByQC_members:
  "(\<Union>x \<in> set (deliberativeByQC dels). set (snd x)) = set dels"
  using deliberativeByQC_foldl[of "[]" dels] by (simp add: deliberativeByQC_def)

lemma groupConditionRows_ids:
  assumes "row \<in> set (groupConditionRows qm im g)"
  shows "\<exists>df \<in> set g. im (d_independentForecastId df) \<noteq> None
           \<and> map_of row ''independent_forecast_id'' = Some (Str (d_independentForecastId df))"
proof (cases g)
  case Nil
  then show ?thesis using assms by (simp add: groupConditionRows_def)
next
  case (Cons d0 rest)
  show ?thesis
  proof (cases "qm (d_questionId d0)")
    case None
    then show ?thesis using assms Cons by (simp add: groupConditionRows_def)
  next
    case (Some q)
    let ?F = "\<lambda>df. case im (d_independentForecastId df) of
                None \<Rightarrow> []
              | Some indF \<Rightarrow> [conditionRow (d_questionId d0) q (d_condition d0) df indF]"
    from assms Cons Some have "row \<in> set (concat (map ?F g))"
      by (simp add: groupConditionRows_def)
    then obtain df where df: "df \<in> set g" and r2: "row \<in> set (?F df)"
      unfolding set_concat set_map by blast
    from r2 obtain indF where i: "im (d_independentForecastId df) = Some indF"
      and r3: "row = conditionRow (d_questionId d0) q (d_condition d0) df indF"
      by (cases "im (d_independentForecastId df)") auto
    have "map_of row ''independent_forecast_id'' = Some (Str (d_independentForecastId df))"
      by (simp add: r3 conditionRow_def)
    then show ?thesis using df i by blast
  qed
qed

lemma conditionRows_ids:
  assumes "row \<in> set (conditionRows (buildDataset qs inds dels))"
  shows "\<exists>df \<in> set dels. d_independentForecastId df \<in> i_forecastId ` set inds
           \<and> map_of row ''independent_forecast_id'' = Some (Str (d_independentForecastId df))"
proof -
  from assms have "row \<in> set (concat (map (\<lambda>(key, delGroup).
        groupConditionRows (questionMapOf qs) (independentMapOf inds) delGroup) (deliberativeByQC dels)))"
    by (simp add: buildDataset_def Let_def)
  then obtain x where x: "x \<in> set (deliberativeByQC dels)"
    and rx: "row \<in> set ((\<lambda>(key, delGroup).
        groupConditionRows (questionMapOf qs) (independentMapOf inds) delGroup) x)"
    unfolding set_concat set_map by blast
  obtain key g where xk: "x = (key, g)" by (cases x) auto
  have kg: "(key, g) \<in> set (deliberativeByQC dels)" using x xk by simp
  have r: "row \<in> set (groupConditionRows (questionMapOf qs) (independentMapOf inds) g)"
    using rx xk by simp
  from groupConditionRows_ids[OF r] obtain df where df: "df \<in> set g"
    "independentMapOf inds (d_independentForecastId df) \<noteq> None"
    "map_of row ''independent_forecast_id'' = Some (Str (d_independentForecastId df))" by blast
  have "df \<in> (\<Union>x \<in> set (deliberativeByQC dels). set (snd x))"
    using kg df(1) by (intro UN_I[of "(key, g)"]) simp_all
  then have d: "df \<in> set dels" by (simp only: deliberativeByQC_members)
  have "d_independentForecastId df \<in> i_forecastId ` set inds"
    using df(2) independentMapOf_None[of inds "d_independentForecastId df"] by simp
  then show ?thesis using d df(3) by (intro bexI[of _ df]) simp_all
qed

lemma forecastRows_question:
  assumes "row \<in> set (forecastRows (buildDataset qs inds dels))"
  shows "\<exists>k \<in> qid ` set qs. map_of row ''question_id'' = Some (Num (of_int k))"
proof -
  let ?FI = "\<lambda>f. case questionMapOf qs (i_questionId f) of
                None \<Rightarrow> [] | Some q \<Rightarrow> [independentForecastRow q f]"
  let ?FD = "\<lambda>f. case questionMapOf qs (d_questionId f) of
                None \<Rightarrow> [] | Some q \<Rightarrow> [deliberativeForecastRow q f]"
  from assms have "row \<in> set (concat (map ?FI inds)) \<or> row \<in> set (concat (map ?FD dels))"
    by (simp add: buildDataset_def Let_def)
  then show ?thesis
  proof
    assume "row \<in> set (concat (map ?FI inds))"
    then obtain f where "row \<in> set (?FI f)" unfolding set_concat set_map by blast
    then obtain q where q: "questionMapOf qs (i_questionId f) = Some q"
      and r: "row = independentForecastRow q f"
      by (cases "questionMapOf qs (i_questionId f)") auto
    from q have "i_questionId f \<in> qid ` set qs"
      using questionMapOf_None[of qs "i_questionId f"] by auto
    moreover have "map_of row ''question_id'' = Some (Num (of_int (i_questionId f)))"
      by (simp add: r independentForecastRow_def)
    ultimately show ?thesis by blast
  next
    assume "row \<in> set (concat (map ?FD dels))"
    then obtain f where "row \<in> set (?FD f)" unfolding set_concat set_map by blast
    then obtain q where q: "questionMapOf qs (d_questionId f) = Some q"
      and r: "row = deliberativeForecastRow q f"
      by (cases "questionMapOf qs (d_questionId f)") auto
    from q have "d_questionId f \<in> qid ` set qs"
      using questionMapOf_None[of qs "d_questionId f"] by auto
    moreover have "map_of row ''question_id'' = Some (Num (of_int (d_questionId f)))"
      by (simp add: r deliberativeForecastRow_def)
    ultimately show ?thesis by blast
  qed
qed

lemma deliberative_forecast_row:
  assumes "df \<in> set dels" "questionMapOf qs (d_questionId df) = Some qe"
  shows "deliberativeForecastRow qe df \<in> set (forecastRows (buildDataset qs inds dels))"
proof -
  let ?FD = "\<lambda>f. case questionMapOf qs (d_questionId f) of
                None \<Rightarrow> [] | Some q \<Rightarrow> [deliberativeForecastRow q f]"
  have "deliberativeForecastRow qe df \<in> set (?FD df)" using assms(2) by simp
  then have "deliberativeForecastRow qe df \<in> set (concat (map ?FD dels))"
    unfolding set_concat set_map using assms(1) by blast
  then show ?thesis by (simp add: buildDataset_def Let_def)
qed

lemma pushToGroup_mset:
  "mset (concat (map snd (pushToGroup key f groups))) = mset (concat (map snd groups)) + {#f#}"
  by (induction key f groups rule: pushToGroup.induct) auto

lemma pushToGroup_keys:
  assumes "\<forall>x \<in> set groups. snd x \<noteq> [] \<and> (\<forall>d \<in> set (snd x). K d = fst x)" "K f = key"
  shows "\<forall>x \<in> set (pushToGroup key f groups). snd x \<noteq> [] \<and> (\<forall>d \<in> set (snd x). K d = fst x)"
  using assms by (induction key f groups rule: pushToGroup.induct) auto

lemma deliberativeByQC_foldl_mset:
  "mset (concat (map snd (foldl (\<lambda>groups f.
       pushToGroup (numberToString (d_questionId f) @ ''-'' @ d_condition f) f groups) g0 dels)))
     = mset (concat (map snd g0)) + mset dels"
  by (induction dels arbitrary: g0) (simp_all add: pushToGroup_mset)

lemma deliberativeByQC_mset: "mset (concat (map snd (deliberativeByQC dels))) = mset dels"
  using deliberativeByQC_foldl_mset[of "[]" dels] by (simp add: deliberativeByQC_def)

lemma foldl_pushToGroup_keys:
  assumes "\<forall>x \<in> set g0. snd x \<noteq> [] \<and> (\<forall>d \<in> set (snd x). K d = fst x)"
  shows "\<forall>x \<in> set (foldl (\<lambda>groups f. pushToGroup (K f) f groups) g0 dels).
           snd x \<noteq> [] \<and> (\<forall>d \<in> set (snd x). K d = fst x)"
  using assms
proof (induction dels arbitrary: g0)
  case Nil
  show ?case unfolding foldl_Nil by (rule Nil)
next
  case (Cons f dels)
  have p: "\<forall>x \<in> set (pushToGroup (K f) f g0). snd x \<noteq> [] \<and> (\<forall>d \<in> set (snd x). K d = fst x)"
    using Cons.prems by (rule pushToGroup_keys) (rule refl)
  show ?case unfolding foldl_Cons by (rule Cons.IH[OF p])
qed

lemma deliberativeByQC_groups:
  assumes "(key, g) \<in> set (deliberativeByQC dels)"
  shows "g \<noteq> []" and "\<forall>d \<in> set g. d_questionId d = d_questionId (hd g) \<and> d_condition d = d_condition (hd g)"
proof -
  let ?K = "\<lambda>d. numberToString (d_questionId d) @ ''-'' @ d_condition d"
  have "\<forall>x \<in> set ([] :: (string \<times> deliberative_result list) list).
          snd x \<noteq> [] \<and> (\<forall>d \<in> set (snd x). ?K d = fst x)" by simp
  from foldl_pushToGroup_keys[where K="?K" and ?g0.0="[]" and dels=dels, OF this]
  have inv: "\<forall>x \<in> set (deliberativeByQC dels). snd x \<noteq> [] \<and> (\<forall>d \<in> set (snd x). ?K d = fst x)"
    unfolding deliberativeByQC_def .
  from bspec[OF inv assms] have ne: "snd (key, g) \<noteq> []"
    and k: "\<forall>d \<in> set (snd (key, g)). ?K d = fst (key, g)" by blast+
  show g: "g \<noteq> []" using ne by simp
  show "\<forall>d \<in> set g. d_questionId d = d_questionId (hd g) \<and> d_condition d = d_condition (hd g)"
  proof
    fix d assume d: "d \<in> set g"
    have h: "hd g \<in> set g" using g by simp
    have 1: "?K d = key" using bspec[OF k, of d] d by simp
    have 2: "?K (hd g) = key" using bspec[OF k, of "hd g"] h by simp
    have "numberToString (d_questionId d) @ CHR ''-'' # d_condition d
        = numberToString (d_questionId (hd g)) @ CHR ''-'' # d_condition (hd g)"
      using 1 2[symmetric] by (simp only: append_Cons append_Nil)
    from numberToString_key[OF this]
    show "d_questionId d = d_questionId (hd g) \<and> d_condition d = d_condition (hd g)" .
  qed
qed

lemma groupConditionRows_pairs:
  assumes "(key, g) \<in> set (deliberativeByQC dels)"
  shows "groupConditionRows (questionMapOf qs) (independentMapOf inds) g
           = concat (map (pairRowsOf qs inds) g)"
proof -
  note gr = deliberativeByQC_groups[OF assms]
  from gr(1) obtain d0 rest where g: "g = d0 # rest" by (cases g) simp_all
  then have hd: "hd g = d0" by simp
  have same: "\<forall>d \<in> set g. d_questionId d = d_questionId d0 \<and> d_condition d = d_condition d0"
    using gr(2) unfolding hd .
  show ?thesis
  proof (cases "questionMapOf qs (d_questionId d0)")
    case None
    then have "\<forall>d \<in> set g. pairRowsOf qs inds d = []" using same by (simp add: pairRowsOf_def)
    then have "concat (map (pairRowsOf qs inds) g) = []" by simp
    then show ?thesis using None g by (simp add: groupConditionRows_def)
  next
    case (Some q)
    have m: "map (\<lambda>df. case independentMapOf inds (d_independentForecastId df) of
                      None \<Rightarrow> []
                    | Some indF \<Rightarrow> [conditionRow (d_questionId d0) q (d_condition d0) df indF]) g
          = map (pairRowsOf qs inds) g"
    proof (rule map_cong[OF refl])
      fix df assume "df \<in> set g"
      with same have e: "d_questionId df = d_questionId d0" "d_condition df = d_condition d0" by simp_all
      show "(case independentMapOf inds (d_independentForecastId df) of
                      None \<Rightarrow> []
                    | Some indF \<Rightarrow> [conditionRow (d_questionId d0) q (d_condition d0) df indF])
          = pairRowsOf qs inds df"
        unfolding pairRowsOf_def e Some by simp
    qed
    have "groupConditionRows (questionMapOf qs) (independentMapOf inds) g
        = concat (map (\<lambda>df. case independentMapOf inds (d_independentForecastId df) of
                      None \<Rightarrow> []
                    | Some indF \<Rightarrow> [conditionRow (d_questionId d0) q (d_condition d0) df indF]) g)"
      using Some g by (simp add: groupConditionRows_def)
    then show ?thesis by (simp only: m)
  qed
qed

lemma concat_map_concat: "concat (map (\<lambda>x. concat (map f (snd x))) xs) = concat (map f (concat (map snd xs)))"
  by (induction xs) simp_all

lemma mset_concat_map:
  "mset (concat (map f zs)) = (\<Sum>z \<in># mset zs. mset (f z))"
  by (induction zs) simp_all

lemma mset_concat_map_cong:
  "mset xs = mset ys \<Longrightarrow> mset (concat (map f xs)) = mset (concat (map f ys))"
  by (simp only: mset_concat_map)

lemma conditionRows_pairs:
  "mset (conditionRows (buildDataset qs inds dels)) = mset (concat (map (pairRowsOf qs inds) dels))"
proof -
  have "conditionRows (buildDataset qs inds dels)
          = concat (map (\<lambda>x. groupConditionRows (questionMapOf qs) (independentMapOf inds) (snd x))
              (deliberativeByQC dels))"
    by (simp add: buildDataset_def Let_def case_prod_unfold)
  also have "\<dots> = concat (map (\<lambda>x. concat (map (pairRowsOf qs inds) (snd x))) (deliberativeByQC dels))"
  proof -
    have "map (\<lambda>x. groupConditionRows (questionMapOf qs) (independentMapOf inds) (snd x))
              (deliberativeByQC dels)
          = map (\<lambda>x. concat (map (pairRowsOf qs inds) (snd x))) (deliberativeByQC dels)"
    proof (rule map_cong[OF refl])
      fix x assume "x \<in> set (deliberativeByQC dels)"
      then have "(fst x, snd x) \<in> set (deliberativeByQC dels)" by simp
      from groupConditionRows_pairs[OF this]
      show "groupConditionRows (questionMapOf qs) (independentMapOf inds) (snd x)
              = concat (map (pairRowsOf qs inds) (snd x))" .
    qed
    then show ?thesis by (rule arg_cong)
  qed
  also have "\<dots> = concat (map (pairRowsOf qs inds) (concat (map snd (deliberativeByQC dels))))"
    by (rule concat_map_concat)
  finally have "conditionRows (buildDataset qs inds dels)
      = concat (map (pairRowsOf qs inds) (concat (map snd (deliberativeByQC dels))))" .
  then show ?thesis
    by (simp only: mset_concat_map_cong[OF deliberativeByQC_mset[of dels], of "pairRowsOf qs inds"])
qed

lemma pairRowsOf_absent:
  "d_independentForecastId df \<notin> i_forecastId ` set inds \<Longrightarrow> pairRowsOf qs inds df = []"
  using independentMapOf_None[of inds "d_independentForecastId df"]
  by (simp add: pairRowsOf_def split: option.splits)

lemma single_join:
  assumes "resolution q = ''yes''" "i_questionId i = qid q" "d_questionId d = qid q"
    "d_independentForecastId d = i_forecastId i"
  shows "conditionRows (buildDataset [q] [i] [d])
           = [conditionRow (qid q)
                \<lparr>e_id = qid q, e_title = questionTitle q, e_resolution = 1\<rparr> (d_condition d) d i]"
    and "forecastRows (buildDataset [q] [i] [d])
           = [independentForecastRow \<lparr>e_id = qid q, e_title = questionTitle q, e_resolution = 1\<rparr> i,
              deliberativeForecastRow \<lparr>e_id = qid q, e_title = questionTitle q, e_resolution = 1\<rparr> d]"
  using assms
  by (simp_all add: buildDataset_def Let_def questionMapOf_def independentMapOf_def
      deliberativeByQC_def groupConditionRows_def)

lemma conditionRows_remove1:
  assumes "df \<in> set dels" "pairRowsOf qs inds df = []"
  shows "mset (conditionRows (buildDataset qs inds dels))
           = mset (conditionRows (buildDataset qs inds (remove1 df dels)))"
proof -
  have "mset dels = mset (df # remove1 df dels)" using assms(1) by simp
  from mset_concat_map_cong[OF this, of "pairRowsOf qs inds"] assms(2)
  show ?thesis by (simp add: conditionRows_pairs)
qed

text \<open>
  Claim C7 (join correctness of the dataset reducer), in the form the code satisfies.
  For one question \<open>q\<close> with resolution \<open>yes\<close>, one independent result of that question
  with probability 70 and one deliberative result of that question that references it,
  with probability 65, \<open>buildDataset\<close> produces exactly one condition-pair row, with
  \<open>independent_prob = 70\<close>, \<open>deliberative_prob = 65\<close> and \<open>resolution = 1\<close>, and a forecasts
  table of exactly two rows for that question, the first tagged \<open>independent\<close> and the
  second \<open>deliberative\<close>. In general the condition-pair rows are, up to their order, one
  row for each deliberative result whose question and referenced independent result are
  loaded, and nothing else. So for every deliberative result \<open>df\<close> whose referenced
  independent result is absent no condition-pair row is emitted: the table is the one
  that the results without \<open>df\<close> give. The forecast row of \<open>df\<close> is still emitted when the
  question of \<open>df\<close> is one of the loaded questions; when it is not, the forecasts table
  has no row for that question at all.
\<close>

theorem join_correctness:
  "(resolution q = ''yes'' \<and> i_questionId i = qid q \<and> d_questionId d = qid q
      \<and> d_independentForecastId d = i_forecastId i
      \<and> probability (i_forecast i) = 70 \<and> probability (d_forecast d) = 65
     \<longrightarrow> (\<exists>row. conditionRows (buildDataset [q] [i] [d]) = [row]
            \<and> map_of row ''independent_prob'' = Some (Num 70)
            \<and> map_of row ''deliberative_prob'' = Some (Num 65)
            \<and> map_of row ''resolution'' = Some (Num 1))
         \<and> (\<exists>r1 r2. forecastRows (buildDataset [q] [i] [d]) = [r1, r2]
            \<and> map_of r1 ''stage'' = Some (Str ''independent'')
            \<and> map_of r2 ''stage'' = Some (Str ''deliberative'')
            \<and> map_of r1 ''question_id'' = Some (Num (of_int (qid q)))
            \<and> map_of r2 ''question_id'' = Some (Num (of_int (qid q)))))
   \<and> mset (conditionRows (buildDataset qs inds dels)) = mset (concat (map (pairRowsOf qs inds) dels))
   \<and> (df \<in> set dels \<and> d_independentForecastId df \<notin> i_forecastId ` set inds
     \<longrightarrow> pairRowsOf qs inds df = []
         \<and> mset (conditionRows (buildDataset qs inds dels))
             = mset (conditionRows (buildDataset qs inds (remove1 df dels)))
         \<and> (\<forall>row \<in> set (conditionRows (buildDataset qs inds dels)).
              map_of row ''independent_forecast_id'' \<noteq> Some (Str (d_independentForecastId df)))
         \<and> (d_questionId df \<in> qid ` set qs
              \<longrightarrow> (\<exists>qe. questionMapOf qs (d_questionId df) = Some qe
                     \<and> deliberativeForecastRow qe df \<in> set (forecastRows (buildDataset qs inds dels))))
         \<and> (d_questionId df \<notin> qid ` set qs
              \<longrightarrow> (\<forall>row \<in> set (forecastRows (buildDataset qs inds dels)).
                     map_of row ''question_id'' \<noteq> Some (Num (of_int (d_questionId df))))))"
proof (intro conjI impI)
  assume a: "resolution q = ''yes'' \<and> i_questionId i = qid q \<and> d_questionId d = qid q
      \<and> d_independentForecastId d = i_forecastId i
      \<and> probability (i_forecast i) = 70 \<and> probability (d_forecast d) = 65"
  then have s: "resolution q = ''yes''" "i_questionId i = qid q" "d_questionId d = qid q"
    "d_independentForecastId d = i_forecastId i" by simp_all
  from a have p: "probability (i_forecast i) = 70" "probability (d_forecast d) = 65" by simp_all
  show "\<exists>row. conditionRows (buildDataset [q] [i] [d]) = [row]
            \<and> map_of row ''independent_prob'' = Some (Num 70)
            \<and> map_of row ''deliberative_prob'' = Some (Num 65)
            \<and> map_of row ''resolution'' = Some (Num 1)"
    by (simp add: single_join(1)[OF s] conditionRow_def p)
  show "\<exists>r1 r2. forecastRows (buildDataset [q] [i] [d]) = [r1, r2]
            \<and> map_of r1 ''stage'' = Some (Str ''independent'')
            \<and> map_of r2 ''stage'' = Some (Str ''deliberative'')
            \<and> map_of r1 ''question_id'' = Some (Num (of_int (qid q)))
            \<and> map_of r2 ''question_id'' = Some (Num (of_int (qid q)))"
    by (simp add: single_join(2)[OF s] independentForecastRow_def deliberativeForecastRow_def s)
next
  show "mset (conditionRows (buildDataset qs inds dels)) = mset (concat (map (pairRowsOf qs inds) dels))"
    by (rule conditionRows_pairs)
next
  assume b: "df \<in> set dels \<and> d_independentForecastId df \<notin> i_forecastId ` set inds"
  then have mem: "df \<in> set dels" and ab: "d_independentForecastId df \<notin> i_forecastId ` set inds"
    by simp_all
  show none: "pairRowsOf qs inds df = []" by (rule pairRowsOf_absent[OF ab])
  show "mset (conditionRows (buildDataset qs inds dels))
             = mset (conditionRows (buildDataset qs inds (remove1 df dels)))"
    by (rule conditionRows_remove1[OF mem none])
  show "\<forall>row \<in> set (conditionRows (buildDataset qs inds dels)).
          map_of row ''independent_forecast_id'' \<noteq> Some (Str (d_independentForecastId df))"
  proof
    fix row assume "row \<in> set (conditionRows (buildDataset qs inds dels))"
    from conditionRows_ids[OF this] obtain df' :: deliberative_result where
      d: "d_independentForecastId df' \<in> i_forecastId ` set inds"
        "map_of row ''independent_forecast_id'' = Some (Str (d_independentForecastId df'))"
      by blast
    show "map_of row ''independent_forecast_id'' \<noteq> Some (Str (d_independentForecastId df))"
    proof
      assume "map_of row ''independent_forecast_id'' = Some (Str (d_independentForecastId df))"
      with d(2) have "d_independentForecastId df' = d_independentForecastId df" by simp
      with d(1) ab show False by simp
    qed
  qed
  {
    assume "d_questionId df \<in> qid ` set qs"
    then have "questionMapOf qs (d_questionId df) \<noteq> None" by (simp add: questionMapOf_None)
    then obtain qe where qe: "questionMapOf qs (d_questionId df) = Some qe" by blast
    from deliberative_forecast_row[OF mem qe] qe
    show "\<exists>qe. questionMapOf qs (d_questionId df) = Some qe
            \<and> deliberativeForecastRow qe df \<in> set (forecastRows (buildDataset qs inds dels))"
      by blast
  }
  {
    assume n: "d_questionId df \<notin> qid ` set qs"
    show "\<forall>row \<in> set (forecastRows (buildDataset qs inds dels)).
            map_of row ''question_id'' \<noteq> Some (Num (of_int (d_questionId df)))"
    proof
      fix row assume "row \<in> set (forecastRows (buildDataset qs inds dels))"
      from forecastRows_question[OF this] obtain k where
        k: "k \<in> qid ` set qs" "map_of row ''question_id'' = Some (Num (of_int k))" by blast
      show "map_of row ''question_id'' \<noteq> Some (Num (of_int (d_questionId df)))"
      proof
        assume "map_of row ''question_id'' = Some (Num (of_int (d_questionId df)))"
        with k(2) have "k = d_questionId df" by simp
        with k(1) n show False by simp
      qed
    qed
  }
qed

theorem join_correctness_witness:
  "(\<exists>row. conditionRows (buildDataset [exampleQuestion] [exampleIndependentResult]
                            [exampleDeliberativeResult]) = [row]
       \<and> map_of row ''independent_prob'' = Some (Num 70)
       \<and> map_of row ''deliberative_prob'' = Some (Num 65)
       \<and> map_of row ''resolution'' = Some (Num 1))
   \<and> (\<exists>r1 r2. forecastRows (buildDataset [exampleQuestion] [exampleIndependentResult]
                               [exampleDeliberativeResult]) = [r1, r2]
       \<and> map_of r1 ''stage'' = Some (Str ''independent'')
       \<and> map_of r2 ''stage'' = Some (Str ''deliberative''))
   \<and> conditionRows (buildDataset [exampleQuestion] [] [exampleDeliberativeResult]) = []
   \<and> (\<exists>qe. deliberativeForecastRow qe exampleDeliberativeResult
          \<in> set (forecastRows (buildDataset [exampleQuestion] [] [exampleDeliberativeResult])))
   \<and> \<not> (\<exists>row \<in> set (forecastRows (buildDataset [] [] [exampleDeliberativeResult])).
          map_of row ''question_id'' = Some (Num 7))"
proof -
  have h1: "resolution exampleQuestion = ''yes''
      \<and> i_questionId exampleIndependentResult = qid exampleQuestion
      \<and> d_questionId exampleDeliberativeResult = qid exampleQuestion
      \<and> d_independentForecastId exampleDeliberativeResult = i_forecastId exampleIndependentResult
      \<and> probability (i_forecast exampleIndependentResult) = 70
      \<and> probability (d_forecast exampleDeliberativeResult) = 65"
    by (simp add: exampleQuestion_def exampleIndependentResult_def exampleDeliberativeResult_def)
  have h2: "exampleDeliberativeResult \<in> set [exampleDeliberativeResult]
      \<and> d_independentForecastId exampleDeliberativeResult
          \<notin> i_forecastId ` set ([] :: independent_result list)"
    by simp
  have h3: "d_questionId exampleDeliberativeResult \<in> qid ` set [exampleQuestion]"
    by (simp add: exampleQuestion_def exampleDeliberativeResult_def)
  note t = join_correctness[where q=exampleQuestion and i=exampleIndependentResult
      and d=exampleDeliberativeResult and df=exampleDeliberativeResult
      and dels="[exampleDeliberativeResult]" and inds="[]" and qs="[exampleQuestion]"]
  note a = t[THEN conjunct1, THEN mp, OF h1]
  note b = t[THEN conjunct2, THEN conjunct2, THEN mp, OF h2]
  have c1: "\<exists>r1 r2. forecastRows (buildDataset [exampleQuestion] [exampleIndependentResult]
                               [exampleDeliberativeResult]) = [r1, r2]
       \<and> map_of r1 ''stage'' = Some (Str ''independent'')
       \<and> map_of r2 ''stage'' = Some (Str ''deliberative'')"
    using a[THEN conjunct2] by blast
  have "mset (conditionRows (buildDataset [exampleQuestion] [] [exampleDeliberativeResult]))
          = mset (conditionRows (buildDataset [exampleQuestion] [] (remove1 exampleDeliberativeResult
               [exampleDeliberativeResult])))"
    by (rule b[THEN conjunct2, THEN conjunct1])
  also have "\<dots> = {#}"
    by (simp add: buildDataset_def deliberativeByQC_def Let_def)
  finally have c2: "conditionRows (buildDataset [exampleQuestion] [] [exampleDeliberativeResult]) = []"
    by simp
  have c3: "\<exists>qe. deliberativeForecastRow qe exampleDeliberativeResult
          \<in> set (forecastRows (buildDataset [exampleQuestion] [] [exampleDeliberativeResult]))"
    using b[THEN conjunct2, THEN conjunct2, THEN conjunct2, THEN conjunct1, THEN mp, OF h3] by blast
  have h4: "d_questionId exampleDeliberativeResult \<notin> qid ` set ([] :: question list)" by simp
  have q7: "d_questionId exampleDeliberativeResult = 7" by (simp add: exampleDeliberativeResult_def)
  note u = join_correctness[where df=exampleDeliberativeResult
      and dels="[exampleDeliberativeResult]" and inds="[]" and qs="[]",
      THEN conjunct2, THEN conjunct2, THEN mp, OF h2]
  have c4: "\<not> (\<exists>row \<in> set (forecastRows (buildDataset [] [] [exampleDeliberativeResult])).
          map_of row ''question_id'' = Some (Num 7))"
    using u[THEN conjunct2, THEN conjunct2, THEN conjunct2, THEN conjunct2, THEN mp, OF h4]
    unfolding q7 by simp
  show ?thesis using a[THEN conjunct1] c1 c2 c3 c4 by (intro conjI)
qed

text \<open>
  The forecast row of a deliberative result is not emitted when its question is not one
  of the loaded questions (\<open>if (!q) continue\<close>): with no questions and no independent
  results, the one deliberative result, whose referenced independent result is absent,
  leaves both tables empty.
\<close>

theorem join_correctness_counterexample:
  "exampleDeliberativeResult \<in> set [exampleDeliberativeResult]
   \<and> d_independentForecastId exampleDeliberativeResult
       \<notin> i_forecastId ` set ([] :: independent_result list)
   \<and> forecastRows (buildDataset [] [] [exampleDeliberativeResult]) = []
   \<and> conditionRows (buildDataset [] [] [exampleDeliberativeResult]) = []"
  by (simp add: buildDataset_def Let_def questionMapOf_def independentMapOf_def
      deliberativeByQC_def groupConditionRows_def)

section \<open>Properties of \<open>toCSV\<close>\<close>

lemma reader_plain_char:
  assumes "c \<noteq> CHR '',''" "c \<noteq> CHR 0x0A" "c \<noteq> CHR 0x0D" "c \<noteq> CHR 0x22"
  shows "standardReader Unquoted f rec (c # cs) = standardReader Unquoted (f @ [c]) rec cs"
    and "standardReader FieldStart f rec (c # cs) = standardReader Unquoted (f @ [c]) rec cs"
  using assms by simp_all

lemma reader_unquoted_run:
  "plainText p \<Longrightarrow> standardReader Unquoted f rec (p @ rest) = standardReader Unquoted (f @ p) rec rest"
proof (induction p arbitrary: f)
  case Nil
  then show ?case by simp
next
  case (Cons c p)
  then have c: "c \<noteq> CHR '',''" "c \<noteq> CHR 0x0A" "c \<noteq> CHR 0x0D" "c \<noteq> CHR 0x22" and p: "plainText p"
    by (auto simp: plainText_def)
  show ?case using reader_plain_char(1)[OF c] Cons.IH[OF p] by simp
qed

lemma reader_start_run:
  assumes "plainText p" "p \<noteq> []"
  shows "standardReader FieldStart [] rec (p @ rest) = standardReader Unquoted p rec rest"
proof -
  obtain c p' where p: "p = c # p'" using assms(2) by (cases p) auto
  with assms(1) have c: "c \<noteq> CHR '',''" "c \<noteq> CHR 0x0A" "c \<noteq> CHR 0x0D" "c \<noteq> CHR 0x22" and p': "plainText p'"
    by (auto simp: plainText_def)
  show ?thesis using reader_plain_char(2)[OF c, of "[]"] reader_unquoted_run[OF p'] by (simp add: p)
qed

lemma reader_quoted_body:
  assumes "rest = [] \<or> hd rest \<noteq> CHR 0x22"
  shows "standardReader Quoted f rec
           (concat (map (\<lambda>c. if c = CHR 0x22 then [CHR 0x22, CHR 0x22] else [c]) s) @ CHR 0x22 # rest)
         = standardReader Unquoted (f @ s) rec rest"
proof (induction s arbitrary: f)
  case Nil
  show ?case using assms by (cases rest) auto
next
  case (Cons c s)
  let ?tail = "concat (map (\<lambda>c. if c = CHR 0x22 then [CHR 0x22, CHR 0x22] else [c]) s) @ CHR 0x22 # rest"
  obtain d ds where t: "?tail = d # ds" by (cases ?tail) auto
  show ?case
  proof (cases "c = CHR 0x22")
    case True
    then show ?thesis using Cons.IH[of "f @ [CHR 0x22]"] by simp
  next
    case False
    have "standardReader Quoted f rec (c # ?tail) = standardReader Quoted (f @ [c]) rec ?tail"
      unfolding t using False by simp
    then show ?thesis using False Cons.IH[of "f @ [c]"] by simp
  qed
qed

lemma csvValue_empty:
  assumes "csvValue nt v = []"
  shows "cellText nt v = []"
proof (cases v)
  case None
  then show ?thesis by (simp add: cellText_def)
next
  case (Some c)
  then show ?thesis using assms by (cases c) (auto simp: cellText_def csvValue_def split: if_splits)
qed

lemma reader_field:
  assumes ok: "recoverable nt v"
    and rest: "rest = [] \<or> hd rest \<noteq> CHR 0x22"
    and ne: "csvValue nt v \<noteq> []"
  shows "standardReader FieldStart [] rec (csvValue nt v @ rest)
           = standardReader Unquoted (cellText nt v) rec rest"
proof (cases v)
  case None
  then show ?thesis using ne by (simp add: csvValue_def)
next
  case (Some c)
  show ?thesis
  proof (cases c)
    case Null
    then show ?thesis using ne Some by (simp add: csvValue_def)
  next
    case (Num n)
    then have p: "plainText (nt n)" and e: "nt n \<noteq> []"
      using ok ne Some by (simp_all add: recoverable_def csvValue_def)
    show ?thesis using reader_start_run[OF p e] Some Num by (simp add: csvValue_def cellText_def)
  next
    case (Str s)
    show ?thesis
    proof (cases "CHR '','' \<in> set s \<or> CHR 0x22 \<in> set s \<or> CHR 0x0A \<in> set s")
      case True
      let ?body = "concat (map (\<lambda>c. if c = CHR 0x22 then [CHR 0x22, CHR 0x22] else [c]) s)"
      have v: "csvValue nt v = CHR 0x22 # ?body @ [CHR 0x22]"
        using True Some Str by (simp add: csvValue_def)
      have "standardReader FieldStart [] rec (CHR 0x22 # ?body @ CHR 0x22 # rest)
              = standardReader Quoted [] rec (?body @ CHR 0x22 # rest)"
        by simp
      also have "\<dots> = standardReader Unquoted ([] @ s) rec rest"
        by (rule reader_quoted_body[OF rest])
      finally have r: "standardReader FieldStart [] rec (CHR 0x22 # ?body @ CHR 0x22 # rest)
              = standardReader Unquoted s rec rest"
        by simp
      have t: "cellText nt v = s" using Some Str by (simp add: cellText_def)
      show ?thesis unfolding v t using r by simp
    next
      case False
      then have p: "plainText s" using ok Some Str by (auto simp: recoverable_def plainText_def)
      have v: "csvValue nt v = s" using False Some Str by (simp add: csvValue_def)
      have e: "s \<noteq> []" using ne v by simp
      have t: "cellText nt v = s" using Some Str by (simp add: cellText_def)
      show ?thesis unfolding v t by (rule reader_start_run[OF p e])
    qed
  qed
qed

lemma reader_field_sep:
  assumes "recoverable nt v"
  shows "standardReader FieldStart [] rec (csvValue nt v @ CHR '','' # rest)
           = standardReader FieldStart [] (rec @ [cellText nt v]) rest"
proof (cases "csvValue nt v = []")
  case True
  then show ?thesis using csvValue_empty[OF True] by simp
next
  case False
  show ?thesis using reader_field[OF assms _ False, of "CHR '','' # rest" rec] by simp
qed

lemma reader_field_nl:
  assumes "recoverable nt v"
  shows "standardReader FieldStart [] rec (csvValue nt v @ CHR 0x0A # rest)
           = (rec @ [cellText nt v]) # standardReader FieldStart [] [] rest"
proof (cases "csvValue nt v = []")
  case True
  then show ?thesis using csvValue_empty[OF True] by simp
next
  case False
  show ?thesis using reader_field[OF assms _ False, of "CHR 0x0A # rest" rec] by simp
qed

lemma reader_field_end:
  assumes "recoverable nt v" "rec \<noteq> [] \<or> csvValue nt v \<noteq> []"
  shows "standardReader FieldStart [] rec (csvValue nt v) = [rec @ [cellText nt v]]"
proof (cases "csvValue nt v = []")
  case True
  then show ?thesis using csvValue_empty[OF True] assms(2) by simp
next
  case False
  show ?thesis using reader_field[OF assms(1) _ False, of "[]" rec] by simp
qed

lemma reader_line_nl:
  assumes "\<forall>v \<in> set vs. recoverable nt v" "vs \<noteq> []"
  shows "standardReader FieldStart [] rec (join '','' (map (csvValue nt) vs) @ CHR 0x0A # rest)
           = (rec @ map (cellText nt) vs) # standardReader FieldStart [] [] rest"
  using assms
proof (induction vs arbitrary: rec)
  case Nil
  then show ?case by simp
next
  case (Cons v vs)
  then have v: "recoverable nt v" by simp
  show ?case
  proof (cases vs)
    case Nil
    then show ?thesis using reader_field_nl[OF v] by simp
  next
    case (Cons w ws)
    have "standardReader FieldStart [] rec
            (csvValue nt v @ CHR '','' # (join '','' (map (csvValue nt) vs) @ CHR 0x0A # rest))
          = standardReader FieldStart [] (rec @ [cellText nt v])
              (join '','' (map (csvValue nt) vs) @ CHR 0x0A # rest)"
      by (rule reader_field_sep[OF v])
    also have "\<dots> = ((rec @ [cellText nt v]) @ map (cellText nt) vs) # standardReader FieldStart [] [] rest"
      using Cons.IH[of "rec @ [cellText nt v]"] Cons.prems Cons by simp
    finally show ?thesis using Cons by simp
  qed
qed

lemma reader_line_end:
  assumes "\<forall>v \<in> set vs. recoverable nt v" "vs \<noteq> []" "rec \<noteq> [] \<or> 1 < length vs"
  shows "standardReader FieldStart [] rec (join '','' (map (csvValue nt) vs))
           = [rec @ map (cellText nt) vs]"
  using assms
proof (induction vs arbitrary: rec)
  case Nil
  then show ?case by simp
next
  case (Cons v vs)
  then have v: "recoverable nt v" by simp
  show ?case
  proof (cases vs)
    case Nil
    then have "rec \<noteq> []" using Cons.prems(3) by simp
    then show ?thesis using reader_field_end[OF v, of rec] Nil by simp
  next
    case (Cons w ws)
    have "standardReader FieldStart [] rec
            (csvValue nt v @ CHR '','' # join '','' (map (csvValue nt) vs))
          = standardReader FieldStart [] (rec @ [cellText nt v]) (join '','' (map (csvValue nt) vs))"
      by (rule reader_field_sep[OF v])
    also have "\<dots> = [(rec @ [cellText nt v]) @ map (cellText nt) vs]"
      using Cons.IH[of "rec @ [cellText nt v]"] Cons.prems Cons by simp
    finally show ?thesis using Cons by simp
  qed
qed

lemma reader_lines:
  assumes "\<forall>vs \<in> set vss. (\<forall>v \<in> set vs. recoverable nt v) \<and> 1 < length vs" "vss \<noteq> []"
  shows "standardReader FieldStart [] []
           (join [CHR 0x0A] (map (\<lambda>vs. join '','' (map (csvValue nt) vs)) vss))
         = map (map (cellText nt)) vss"
  using assms
proof (induction vss)
  case Nil
  then show ?case by simp
next
  case (Cons vs vss)
  then have ok: "\<forall>v \<in> set vs. recoverable nt v" and len: "1 < length vs" by simp_all
  then have ne: "vs \<noteq> []" by auto
  show ?case
  proof (cases vss)
    case Nil
    then show ?thesis using reader_line_end[OF ok ne, of "[]"] len by simp
  next
    case (Cons ws wss)
    have "standardReader FieldStart [] []
            (join '','' (map (csvValue nt) vs) @ CHR 0x0A #
               join [CHR 0x0A] (map (\<lambda>vs. join '','' (map (csvValue nt) vs)) vss))
          = ([] @ map (cellText nt) vs) # standardReader FieldStart [] []
               (join [CHR 0x0A] (map (\<lambda>vs. join '','' (map (csvValue nt) vs)) vss))"
      by (rule reader_line_nl[OF ok ne])
    then show ?thesis using Cons.IH Cons.prems Cons by simp
  qed
qed

lemma plain_header:
  assumes "plainText h"
  shows "csvValue nt (Some (Str h)) = h" "recoverable nt (Some (Str h))" "cellText nt (Some (Str h)) = h"
  using assms by (auto simp: csvValue_def recoverable_def cellText_def plainText_def)

lemma toCSV_lines:
  assumes "\<forall>h \<in> set (map fst r0). plainText h"
  shows "toCSV nt (r0 # rest)
           = join [CHR 0x0A] (map (\<lambda>vs. join '','' (map (csvValue nt) vs))
               (map (\<lambda>h. Some (Str h)) (map fst r0)
                # map (\<lambda>r. map (map_of r) (map fst r0)) (r0 # rest)))"
proof -
  have h: "map (\<lambda>x. csvValue nt (Some (Str (fst x)))) r0 = map fst r0"
    using assms by (induction r0) (simp_all add: plain_header(1))
  show ?thesis by (simp add: toCSV_def Let_def comp_def h)
qed

text \<open>
  Claim C8 (CSV escaping round trip), in the form the code satisfies. The empty table is
  written as the empty text. For a table of at least two columns whose column names hold
  no comma, quote, line feed or carriage return, whose numbers are written without these
  characters, and whose string values hold a carriage return only together with a comma,
  a quote or a line feed, the standard reader recovers from the text of \<open>toCSV\<close> the
  column names of the first row, in their order, and under them the text of every cell
  of every row: a string value exactly, the text of a number, the empty text for \<open>null\<close>
  and for a missing key.
\<close>

theorem csv_round_trip:
  "standardRead (toCSV numberText []) = []
   \<and> (1 < length r0
       \<and> (\<forall>h \<in> set (map fst r0). plainText h)
       \<and> (\<forall>r \<in> set (r0 # rest). \<forall>h \<in> set (map fst r0). recoverable numberText (map_of r h))
      \<longrightarrow> standardRead (toCSV numberText (r0 # rest))
            = map fst r0
              # map (\<lambda>r. map (\<lambda>h. cellText numberText (map_of r h)) (map fst r0)) (r0 # rest))"
proof (intro conjI impI)
  show "standardRead (toCSV numberText []) = []"
    by (simp add: toCSV_def standardRead_def)
next
  assume a: "1 < length r0
       \<and> (\<forall>h \<in> set (map fst r0). plainText h)
       \<and> (\<forall>r \<in> set (r0 # rest). \<forall>h \<in> set (map fst r0). recoverable numberText (map_of r h))"
  let ?hs = "map fst r0"
  let ?vss = "map (\<lambda>h. Some (Str h)) ?hs # map (\<lambda>r. map (map_of r) ?hs) (r0 # rest)"
  from a have len: "1 < length r0" and plain: "\<forall>h \<in> set ?hs. plainText h"
    and ok: "\<forall>r \<in> set (r0 # rest). \<forall>h \<in> set ?hs. recoverable numberText (map_of r h)"
    by blast+
  have "\<forall>vs \<in> set ?vss. (\<forall>v \<in> set vs. recoverable numberText v) \<and> 1 < length vs"
  proof
    fix vs assume "vs \<in> set ?vss"
    then consider "vs = map (\<lambda>h. Some (Str h)) ?hs"
      | r where "r \<in> set (r0 # rest)" "vs = map (map_of r) ?hs"
      by auto
    then show "(\<forall>v \<in> set vs. recoverable numberText v) \<and> 1 < length vs"
    proof cases
      case 1
      then show ?thesis using plain len by (auto simp: plain_header(2))
    next
      case 2
      then show ?thesis using ok len by auto
    qed
  qed
  from reader_lines[OF this]
  have "standardReader FieldStart [] []
          (join [CHR 0x0A] (map (\<lambda>vs. join '','' (map (csvValue numberText) vs)) ?vss))
        = map (map (cellText numberText)) ?vss"
    by simp
  moreover have "map (\<lambda>x. cellText numberText (Some (Str (fst x)))) r0 = map fst r0"
    using plain by (induction r0) (simp_all add: plain_header(3))
  ultimately show "standardRead (toCSV numberText (r0 # rest))
            = map fst r0
              # map (\<lambda>r. map (\<lambda>h. cellText numberText (map_of r h)) (map fst r0)) (r0 # rest)"
    unfolding standardRead_def toCSV_lines[OF plain] by (simp add: comp_def)
qed

lemma decimal_70: "decimal 70 = ''70''"
  by (subst decimal.simps) (simp add: decimal_digit digitChar_def)

lemma integerText_example: "integerText 7 = ''7''" "integerText 70 = ''70''"
  by (simp_all add: integerText_def numberToString_def decimal_digit digitChar_def decimal_70)

theorem csv_round_trip_witness:
  "standardRead (toCSV integerText [exampleRow])
     = [[''question_id'', ''rationale'', ''probability''],
        [''7'', exampleRationale, ''70'']]"
proof -
  have h: "1 < length exampleRow
       \<and> (\<forall>h \<in> set (map fst exampleRow). plainText h)
       \<and> (\<forall>r \<in> set (exampleRow # []). \<forall>h \<in> set (map fst exampleRow).
            recoverable integerText (map_of r h))"
    by (simp add: exampleRow_def plainText_def recoverable_def exampleRationale_def
        integerText_example)
  from csv_round_trip[where numberText=integerText and ?r0.0=exampleRow and rest="[]",
      THEN conjunct2, THEN mp, OF h]
  show ?thesis by (simp add: exampleRow_def cellText_def integerText_example)
qed

text \<open>
  A carriage return alone in a string value is a line break that \<open>toCSV\<close> does not
  quote: the standard reader ends the record there, and the value is not recovered.
\<close>

theorem csv_carriage_return:
  "toCSV integerText [carriageReturnRow]
     = ''forecast_id,title'' @ [CHR 0x0A] @ ''7-pro-full,up'' @ [CHR 0x0D] @ ''down''
   \<and> standardRead (toCSV integerText [carriageReturnRow])
     = [[''forecast_id'', ''title''], [''7-pro-full'', ''up''], [''down'']]
   \<and> standardRead (toCSV integerText [carriageReturnRow])
     \<noteq> [[''forecast_id'', ''title''], [''7-pro-full'', ''up'' @ [CHR 0x0D] @ ''down'']]"
  by (simp add: toCSV_def csvValue_def carriageReturnRow_def standardRead_def Let_def)

end
